theory Spec2Isabelle
  imports Complex_Main
begin

section \<open>Quantum mechanical atomic model viewer: a shallow embedding of main.js\<close>

text \<open>
  JavaScript numbers are modelled as \<open>int\<close> where the source uses them as integers
  (atomic numbers, quantum numbers, loop counters, electron counts) and as \<open>real\<close>
  where it computes with them (radii, densities, colours, positions): the arithmetic of
  doubles is idealised to exact real arithmetic, so rounding, \<open>NaN\<close> and the infinities
  are outside the model. \<open>Math.random()\<close> is an explicit source of draws: a stream
  \<open>rnd :: nat \<Rightarrow> real\<close> together with the position of the next draw, which every
  sampling function takes and returns. The rendering engine, the camera and the DOM are
  external; a scene is the list of the objects the assembler adds to it.
\<close>

subsection \<open>Element data\<close>

record element =
  el_z :: int
  el_symbol :: string
  el_name :: string
  el_neutrons :: int

definition mkElement :: "int \<Rightarrow> string \<Rightarrow> string \<Rightarrow> int \<Rightarrow> element" where
  "mkElement zz s nm nn = \<lparr>el_z = zz, el_symbol = s, el_name = nm, el_neutrons = nn\<rparr>"

definition ELEMENT_LIST :: "element list" where
  "ELEMENT_LIST =
   [mkElement 1 ''H'' ''Hydrogen'' 0, mkElement 2 ''He'' ''Helium'' 2,
    mkElement 3 ''Li'' ''Lithium'' 4, mkElement 4 ''Be'' ''Beryllium'' 5,
    mkElement 5 ''B'' ''Boron'' 6, mkElement 6 ''C'' ''Carbon'' 6,
    mkElement 7 ''N'' ''Nitrogen'' 7, mkElement 8 ''O'' ''Oxygen'' 8,
    mkElement 9 ''F'' ''Fluorine'' 10, mkElement 10 ''Ne'' ''Neon'' 10,
    mkElement 11 ''Na'' ''Sodium'' 12, mkElement 12 ''Mg'' ''Magnesium'' 12,
    mkElement 13 ''Al'' ''Aluminum'' 14, mkElement 14 ''Si'' ''Silicon'' 14,
    mkElement 15 ''P'' ''Phosphorus'' 16, mkElement 16 ''S'' ''Sulfur'' 16,
    mkElement 17 ''Cl'' ''Chlorine'' 18, mkElement 18 ''Ar'' ''Argon'' 22,
    mkElement 19 ''K'' ''Potassium'' 20, mkElement 20 ''Ca'' ''Calcium'' 20,
    mkElement 21 ''Sc'' ''Scandium'' 24, mkElement 22 ''Ti'' ''Titanium'' 26,
    mkElement 23 ''V'' ''Vanadium'' 28, mkElement 24 ''Cr'' ''Chromium'' 28,
    mkElement 25 ''Mn'' ''Manganese'' 30, mkElement 26 ''Fe'' ''Iron'' 30,
    mkElement 27 ''Co'' ''Cobalt'' 32, mkElement 28 ''Ni'' ''Nickel'' 31,
    mkElement 29 ''Cu'' ''Copper'' 35, mkElement 30 ''Zn'' ''Zinc'' 35,
    mkElement 31 ''Ga'' ''Gallium'' 39, mkElement 32 ''Ge'' ''Germanium'' 41,
    mkElement 33 ''As'' ''Arsenic'' 42, mkElement 34 ''Se'' ''Selenium'' 45,
    mkElement 35 ''Br'' ''Bromine'' 45, mkElement 36 ''Kr'' ''Krypton'' 48]"

text \<open>\<^verbatim>\<open>ELEMENT_LIST.forEach(el => { ELEMENTS[el.z] = el; })\<close>: a later entry would
  overwrite an earlier one with the same key.\<close>

definition ELEMENTS :: "int \<rightharpoonup> element" where
  "ELEMENTS = fold (\<lambda>el m. m(el_z el \<mapsto> el)) ELEMENT_LIST Map.empty"

subsection \<open>Aufbau filling order and the electron configuration\<close>

record subshell =
  sub_n :: int
  sub_l :: int
  sub_label :: string
  maxElectrons :: int

record filled = subshell +
  electrons :: int

definition SUBSHELL_LABELS :: "string list" where
  "SUBSHELL_LABELS = [''s'', ''p'', ''d'', ''f'']"

fun show_nat :: "nat \<Rightarrow> string" where
  "show_nat k = (if k < 10 then [char_of (48 + k)]
                 else show_nat (k div 10) @ [char_of (48 + k mod 10)])"

declare show_nat.simps [simp del]

definition AUFBAU_PAIRS :: "(int \<times> int) list" where
  "AUFBAU_PAIRS =
   [(1, 0), (2, 0), (2, 1), (3, 0), (3, 1), (4, 0), (3, 2), (4, 1), (5, 0), (4, 2),
    (5, 1), (6, 0), (4, 3), (5, 2), (6, 1), (7, 0), (5, 3), (6, 2), (7, 1)]"

definition AUFBAU_ORDER :: "subshell list" where
  "AUFBAU_ORDER =
     map (\<lambda>(nn, ll). \<lparr>sub_n = nn, sub_l = ll,
                       sub_label = show_nat (nat nn) @ SUBSHELL_LABELS ! nat ll,
                       maxElectrons = 2 * (2 * ll + 1)\<rparr>) AUFBAU_PAIRS"

text \<open>The \<^verbatim>\<open>for (const sub of AUFBAU_ORDER)\<close> loop of getElectronConfiguration, with
  \<open>remaining\<close> as its state; \<^verbatim>\<open>break\<close> ends it.\<close>

fun fillSubshells :: "int \<Rightarrow> subshell list \<Rightarrow> filled list" where
  "fillSubshells remaining [] = []"
| "fillSubshells remaining (sub # rest) =
     (if remaining \<le> 0 then []
      else (let e = min remaining (maxElectrons sub)
            in \<lparr>sub_n = sub_n sub, sub_l = sub_l sub, sub_label = sub_label sub,
                maxElectrons = maxElectrons sub, electrons = e\<rparr>
               # fillSubshells (remaining - e) rest))"

definition getElectronConfiguration :: "int \<Rightarrow> filled list" where
  "getElectronConfiguration Z = fillSubshells Z AUFBAU_ORDER"

definition subshellOf :: "filled \<Rightarrow> subshell" where
  "subshellOf f = \<lparr>sub_n = sub_n f, sub_l = sub_l f, sub_label = sub_label f,
                   maxElectrons = maxElectrons f\<rparr>"


subsection \<open>Heatmap colour ramp\<close>

type_synonym color = "real \<times> real \<times> real"

definition densityToHeatmap :: "real \<Rightarrow> color" where
  "densityToHeatmap t0 =
     (let t = max 0 (min 1 t0) in
      if t < 0.25 then
        (let s = t / 0.25 in (0.15 + s * 0.55, 0.0 + s * 0.0, 0.3 + s * 0.4))
      else if t < 0.5 then
        (let s = (t - 0.25) / 0.25 in (0.7 + s * 0.3, 0.0 + s * 0.45, 0.7 - s * 0.6))
      else if t < 0.75 then
        (let s = (t - 0.5) / 0.25 in (1.0, 0.45 + s * 0.45, 0.1 - s * 0.05))
      else
        (let s = (t - 0.75) / 0.25 in (1.0, 0.9 + s * 0.1, 0.05 + s * 0.95)))"

text \<open>The ramp as the specification words it: four linear segments between the colour
  stops deep purple, magenta, orange, yellow and white, with breakpoints at 0.25, 0.5 and
  0.75.\<close>

definition lerp_color :: "color \<Rightarrow> color \<Rightarrow> real \<Rightarrow> color" where
  "lerp_color a b s =
     (case a of (ar, ag, ab) \<Rightarrow> case b of (br, bg, bb) \<Rightarrow>
        (ar + s * (br - ar), ag + s * (bg - ag), ab + s * (bb - ab)))"

definition heat_ramp_spec :: "real \<Rightarrow> color" where
  "heat_ramp_spec t =
     (if t < 1/4 then lerp_color (0.15, 0, 0.3) (0.7, 0, 0.7) (4 * t)
      else if t < 1/2 then lerp_color (0.7, 0, 0.7) (1, 0.45, 0.1) (4 * t - 1)
      else if t < 3/4 then lerp_color (1, 0.45, 0.1) (1, 0.9, 0.05) (4 * t - 2)
      else lerp_color (1, 0.9, 0.05) (1, 1, 1) (4 * t - 3))"

subsection \<open>Radial probability density\<close>

definition radialScale :: "int \<Rightarrow> real" where
  "radialScale n = 2.5 + (real_of_int n - 1) * 2.0"

text \<open>The \<^verbatim>\<open>for (let i = 2; i <= p; i++)\<close> loop of laguerreL, with \<open>lPrev2\<close> and
  \<open>lPrev1\<close> as its state.\<close>

function laguerre_loop :: "int \<Rightarrow> int \<Rightarrow> real \<Rightarrow> real \<Rightarrow> real \<Rightarrow> real \<Rightarrow> real" where
  "laguerre_loop i p k x lPrev2 lPrev1 =
     (if i \<le> p then
        (let lCurr = ((2 * real_of_int i - 1 + k - x) * lPrev1
                       - (real_of_int i - 1 + k) * lPrev2) / real_of_int i
         in laguerre_loop (i + 1) p k x lPrev1 lCurr)
      else lPrev1)"
  by pat_completeness auto
termination
  by (relation "measure (\<lambda>(i, p, k, x, a, b). nat (p + 1 - i))") auto

declare laguerre_loop.simps [simp del]

definition laguerreL :: "int \<Rightarrow> real \<Rightarrow> real \<Rightarrow> real" where
  "laguerreL p k x =
     (if p = 0 then 1
      else if p = 1 then 1 + k - x
      else laguerre_loop 2 p k x 1 (1 + k - x))"

text \<open>\<^verbatim>\<open>Math.pow(rho, l)\<close> with an integer exponent is \<open>rho powi l\<close>.\<close>

definition radialProbability :: "int \<Rightarrow> int \<Rightarrow> real \<Rightarrow> real" where
  "radialProbability n l rho =
     (let lagP = n - l - 1;
          lagK = 2 * l + 1;
          L = laguerreL lagP (real_of_int lagK) rho;
          Rnl = (rho powi l) * L * exp (- rho / 2)
      in rho * rho * Rnl * Rnl)"

text \<open>The generalized Laguerre polynomials as the specification words them: the
  three-term recurrence \<open>L\<^sub>0 = 1\<close>, \<open>L\<^sub>1 = 1 + k - x\<close>,
  \<open>i L\<^sub>i = (2i - 1 + k - x) L\<^bsub>i-1\<^esub> - (i - 1 + k) L\<^bsub>i-2\<^esub>\<close>.\<close>

fun laguerre_spec :: "real \<Rightarrow> real \<Rightarrow> nat \<Rightarrow> real" where
  "laguerre_spec k x 0 = 1"
| "laguerre_spec k x (Suc 0) = 1 + k - x"
| "laguerre_spec k x (Suc (Suc i)) =
     ((2 * real (Suc (Suc i)) - 1 + k - x) * laguerre_spec k x (Suc i)
       - (real (Suc (Suc i)) - 1 + k) * laguerre_spec k x i) / real (Suc (Suc i))"

subsection \<open>The random source and the radial sampler\<close>

text \<open>A run of the program fixes the sequence of values \<^verbatim>\<open>Math.random()\<close> returns;
  \<open>rnd k\<close> is the \<open>k\<close>-th of them. A sampling function takes the position of the next
  draw and returns the position after its last draw.\<close>

type_synonym rng = "nat \<Rightarrow> real"

record radialSample =
  rs_r :: real
  radialDensity :: real

text \<open>The \<^verbatim>\<open>for (let i = 0; i <= 200; i++)\<close> loop of sampleRadius, which finds the
  largest value of the density on the grid.\<close>

definition probMax_grid :: "int \<Rightarrow> int \<Rightarrow> real \<Rightarrow> real" where
  "probMax_grid n l rhoMax =
     fold (\<lambda>i probMax.
             (let rho = (real i / 200) * rhoMax;
                  p = radialProbability n l rho
              in if p > probMax then p else probMax))
          [0..<201] 0"

text \<open>One pass through the body of the rejection loop of sampleRadius: two draws, and
  the sample when the draw is accepted.\<close>

definition radius_attempt ::
  "int \<Rightarrow> int \<Rightarrow> real \<Rightarrow> real \<Rightarrow> real \<Rightarrow> rng \<Rightarrow> nat \<Rightarrow> radialSample option" where
  "radius_attempt n l R rhoMax probMax rnd k =
     (let rho = rnd k * rhoMax;
          prob = radialProbability n l rho
      in if rnd (k + 1) * probMax < prob then
           (let r_scene = rho * R / (2 * real_of_int n);
                radialDensity = prob / probMax
            in Some \<lparr>rs_r = r_scene, radialDensity = radialDensity\<rparr>)
         else None)"

text \<open>The rejection loop \<^verbatim>\<open>for (let attempt = 0; attempt < 500; attempt++)\<close>; its
  first argument counts the attempts that remain. \<open>None\<close> is the loop running out.\<close>

fun radius_attempts ::
  "nat \<Rightarrow> int \<Rightarrow> int \<Rightarrow> real \<Rightarrow> real \<Rightarrow> real \<Rightarrow> rng \<Rightarrow> nat \<Rightarrow> radialSample option \<times> nat" where
  "radius_attempts 0 n l R rhoMax probMax rnd k = (None, k)"
| "radius_attempts (Suc m) n l R rhoMax probMax rnd k =
     (case radius_attempt n l R rhoMax probMax rnd k of
        Some s \<Rightarrow> (Some s, k + 2)
      | None \<Rightarrow> radius_attempts m n l R rhoMax probMax rnd (k + 2))"

definition sampleRadius :: "int \<Rightarrow> int \<Rightarrow> rng \<Rightarrow> nat \<Rightarrow> radialSample \<times> nat" where
  "sampleRadius n l rnd k =
     (let R = radialScale n;
          rhoMax = 3 * real_of_int n + 4;
          probMax = probMax_grid n l rhoMax * 1.05
      in case radius_attempts 500 n l R rhoMax probMax rnd k of
           (Some s, k') \<Rightarrow> (s, k')
         | (None, k') \<Rightarrow> (\<lparr>rs_r = R * 0.5, radialDensity = 0.3\<rparr>, k'))"

subsection \<open>Angular samplers\<close>

type_synonym vec3 = "real \<times> real \<times> real"

record orbitalSample =
  pos :: vec3
  density :: real

definition sampleSOrbital :: "int \<Rightarrow> rng \<Rightarrow> nat \<Rightarrow> orbitalSample \<times> nat" where
  "sampleSOrbital n rnd k =
     (case sampleRadius n 0 rnd k of (s, k1) \<Rightarrow>
        (let r = rs_r s;
             theta = rnd k1 * 2 * pi;
             cosP = 2 * rnd (k1 + 1) - 1;
             sinP = sqrt (1 - cosP * cosP)
         in (\<lparr>pos = (r * sinP * cos theta, r * cosP, r * sinP * sin theta),
              density = radialDensity s\<rparr>, k1 + 2)))"

text \<open>The p, d and f samplers draw an azimuth and the cosine of the polar angle and
  turn them into the unit vector \<^verbatim>\<open>(sinT * cos(phi), cosT, sinT * sin(phi))\<close>.\<close>

definition sphereDirection :: "real \<Rightarrow> real \<Rightarrow> vec3" where
  "sphereDirection phi cosT =
     (let sinT = sqrt (1 - cosT * cosT)
      in (sinT * cos phi, cosT, sinT * sin phi))"

text \<open>The angular value of the p sampler, the \<^verbatim>\<open>if (ml === 0) \<dots> else if (ml === 1)
  \<dots> else\<close> on the components of the direction.\<close>

definition p_angularVal :: "int \<Rightarrow> vec3 \<Rightarrow> real" where
  "p_angularVal ml v =
     (case v of (x, y, z) \<Rightarrow>
        if ml = 0 then y * y else if ml = 1 then x * x else z * z)"

text \<open>The angular rejection loops \<^verbatim>\<open>for (let i = 0; i < 500; i++)\<close> of the p, d and
  f samplers. Each has its body as a definition of its own (three draws; the direction
  and its angular value when the draw is accepted) and the loop over the attempts that
  remain; \<open>None\<close> is the loop running out with \<open>accepted\<close> still false.\<close>

definition p_attempt :: "int \<Rightarrow> rng \<Rightarrow> nat \<Rightarrow> (vec3 \<times> real) option" where
  "p_attempt ml rnd k =
     (let theta = rnd k * 2 * pi;
          cosP = 2 * rnd (k + 1) - 1;
          dir = sphereDirection theta cosP;
          angularVal = p_angularVal ml dir;
          angularProb = angularVal powr 3.5
      in if rnd (k + 2) < angularProb then Some (dir, angularVal) else None)"

fun p_attempts :: "nat \<Rightarrow> int \<Rightarrow> rng \<Rightarrow> nat \<Rightarrow> (vec3 \<times> real) option \<times> nat" where
  "p_attempts 0 ml rnd k = (None, k)"
| "p_attempts (Suc m) ml rnd k =
     (case p_attempt ml rnd k of
        Some a \<Rightarrow> (Some a, k + 3)
      | None \<Rightarrow> p_attempts m ml rnd (k + 3))"

definition samplePOrbital :: "int \<Rightarrow> int \<Rightarrow> rng \<Rightarrow> nat \<Rightarrow> orbitalSample \<times> nat" where
  "samplePOrbital n ml rnd k =
     (case sampleRadius n 1 rnd k of (s, k1) \<Rightarrow>
        (let r = rs_r s in
         case p_attempts 500 ml rnd k1 of
           (Some ((x, y, z), angularVal), k2) \<Rightarrow>
             (\<lparr>pos = (x * r, y * r, z * r), density = radialDensity s * angularVal\<rparr>, k2)
         | (None, k2) \<Rightarrow>
             (let sign = (if rnd k2 < 0.5 then 1 else -1);
                  spread = 0.15;
                  (x, y, z) =
                    (if ml = 0 then
                       ((rnd (k2 + 1) - 0.5) * spread, sign, (rnd (k2 + 2) - 0.5) * spread)
                     else if ml = 1 then
                       (sign, (rnd (k2 + 1) - 0.5) * spread, (rnd (k2 + 2) - 0.5) * spread)
                     else
                       ((rnd (k2 + 1) - 0.5) * spread, (rnd (k2 + 2) - 0.5) * spread, sign));
                  len = sqrt (x * x + y * y + z * z);
                  angularVal = 0.9
              in (\<lparr>pos = (x / len * r, y / len * r, z / len * r),
                   density = radialDensity s * angularVal\<rparr>, k2 + 3))))"

text \<open>The angular value of the d sampler, the \<^verbatim>\<open>switch (ml)\<close> of its loop body, as
  a function of the two angles drawn.\<close>

definition d_angularVal :: "int \<Rightarrow> real \<Rightarrow> real \<Rightarrow> real" where
  "d_angularVal ml phi cosT =
     (let sinT = sqrt (1 - cosT * cosT);
          sin2T = sinT * sinT;
          cos2T = cosT * cosT
      in if ml = 0 then (3 * cos2T - 1)\<^sup>2 / 4
         else if ml = 1 then sin2T * cos2T * cos phi * cos phi * 4
         else if ml = -1 then sin2T * cos2T * sin phi * sin phi * 4
         else if ml = 2 then sin2T * sin2T * sin (2 * phi) * sin (2 * phi)
         else if ml = -2 then sin2T * sin2T * cos (2 * phi) * cos (2 * phi)
         else 1)"

definition d_attempt :: "int \<Rightarrow> rng \<Rightarrow> nat \<Rightarrow> (vec3 \<times> real) option" where
  "d_attempt ml rnd k =
     (let phi = rnd k * 2 * pi;
          cosT = 2 * rnd (k + 1) - 1;
          dir = sphereDirection phi cosT;
          angularVal = d_angularVal ml phi cosT;
          angularProb = min (angularVal powr 2.5) 1
      in if rnd (k + 2) < angularProb then Some (dir, angularVal) else None)"

fun d_attempts :: "nat \<Rightarrow> int \<Rightarrow> rng \<Rightarrow> nat \<Rightarrow> (vec3 \<times> real) option \<times> nat" where
  "d_attempts 0 ml rnd k = (None, k)"
| "d_attempts (Suc m) ml rnd k =
     (case d_attempt ml rnd k of
        Some a \<Rightarrow> (Some a, k + 3)
      | None \<Rightarrow> d_attempts m ml rnd (k + 3))"

definition sampleDOrbital :: "int \<Rightarrow> int \<Rightarrow> rng \<Rightarrow> nat \<Rightarrow> orbitalSample \<times> nat" where
  "sampleDOrbital n ml rnd k =
     (case sampleRadius n 2 rnd k of (s, k1) \<Rightarrow>
        (let r = rs_r s in
         case d_attempts 500 ml rnd k1 of
           (Some ((x, y, z), angularVal), k2) \<Rightarrow>
             (\<lparr>pos = (x * r, y * r, z * r), density = radialDensity s * angularVal\<rparr>, k2)
         | (None, k2) \<Rightarrow>
             (let sign = (if rnd k2 < 0.5 then 1 else -1);
                  (x, y, z) = (if ml = 0 then (0, sign, 0) else (sign * 0.707, 0, sign * 0.707));
                  angularVal = 0.8
              in (\<lparr>pos = (x * r, y * r, z * r), density = radialDensity s * angularVal\<rparr>,
                  k2 + 1))))"

text \<open>The angular value of the f sampler, the \<^verbatim>\<open>switch (ml)\<close> of its loop body;
  \<open>y\<close> of the source is \<open>cosT\<close>.\<close>

definition f_angularVal :: "int \<Rightarrow> real \<Rightarrow> real \<Rightarrow> real" where
  "f_angularVal ml phi cosT =
     (let sinT = sqrt (1 - cosT * cosT);
          y = cosT;
          sin2T = sinT * sinT;
          cos2T = cosT * cosT
      in if ml = 0 then (y * (5 * cos2T - 3))\<^sup>2 * 0.1
         else if ml = 1 then sin2T * (5 * cos2T - 1)\<^sup>2 * cos phi * cos phi * 0.08
         else if ml = -1 then sin2T * (5 * cos2T - 1)\<^sup>2 * sin phi * sin phi * 0.08
         else if ml = 2 then sin2T * sin2T * cos2T * sin (2 * phi) * sin (2 * phi) * 2
         else if ml = -2 then sin2T * sin2T * cos2T * cos (2 * phi) * cos (2 * phi) * 2
         else if ml = 3 then sin2T * sin2T * sin2T * cos (3 * phi) * cos (3 * phi)
         else if ml = -3 then sin2T * sin2T * sin2T * sin (3 * phi) * sin (3 * phi)
         else 0.5)"

definition f_attempt :: "int \<Rightarrow> rng \<Rightarrow> nat \<Rightarrow> (vec3 \<times> real) option" where
  "f_attempt ml rnd k =
     (let phi = rnd k * 2 * pi;
          cosT = 2 * rnd (k + 1) - 1;
          dir = sphereDirection phi cosT;
          angularVal = f_angularVal ml phi cosT;
          angularProb = min (angularVal powr 2.0) 1
      in if rnd (k + 2) < angularProb then Some (dir, angularVal) else None)"

fun f_attempts :: "nat \<Rightarrow> int \<Rightarrow> rng \<Rightarrow> nat \<Rightarrow> (vec3 \<times> real) option \<times> nat" where
  "f_attempts 0 ml rnd k = (None, k)"
| "f_attempts (Suc m) ml rnd k =
     (case f_attempt ml rnd k of
        Some a \<Rightarrow> (Some a, k + 3)
      | None \<Rightarrow> f_attempts m ml rnd (k + 3))"

definition sampleFOrbital :: "int \<Rightarrow> int \<Rightarrow> rng \<Rightarrow> nat \<Rightarrow> orbitalSample \<times> nat" where
  "sampleFOrbital n ml rnd k =
     (case sampleRadius n 3 rnd k of (s, k1) \<Rightarrow>
        (let r = rs_r s in
         case f_attempts 500 ml rnd k1 of
           (Some ((x, y, z), angularVal), k2) \<Rightarrow>
             (\<lparr>pos = (x * r, y * r, z * r), density = radialDensity s * angularVal\<rparr>, k2)
         | (None, k2) \<Rightarrow>
             (let sign = (if rnd k2 < 0.5 then 1 else -1);
                  (x, y, z) = (0, sign, 0);
                  angularVal = 0.7
              in (\<lparr>pos = (x * r, y * r, z * r), density = radialDensity s * angularVal\<rparr>,
                  k2 + 1))))"

text \<open>The \<^verbatim>\<open>switch (l)\<close> of sampleOrbitalPositions.\<close>

definition sampleOne :: "int \<Rightarrow> int \<Rightarrow> int \<Rightarrow> rng \<Rightarrow> nat \<Rightarrow> orbitalSample \<times> nat" where
  "sampleOne n l ml rnd k =
     (if l = 0 then sampleSOrbital n rnd k
      else if l = 1 then samplePOrbital n ml rnd k
      else if l = 2 then sampleDOrbital n ml rnd k
      else if l = 3 then sampleFOrbital n ml rnd k
      else sampleSOrbital n rnd k)"

text \<open>The \<^verbatim>\<open>for (let i = 0; i < count; i++)\<close> loop of sampleOrbitalPositions, with
  the array \<open>results\<close> as its state.\<close>

function sample_loop ::
  "int \<Rightarrow> int \<Rightarrow> int \<Rightarrow> int \<Rightarrow> int \<Rightarrow> rng \<Rightarrow> nat \<Rightarrow> orbitalSample list
   \<Rightarrow> orbitalSample list \<times> nat" where
  "sample_loop i count n l ml rnd k results =
     (if i < count then
        (case sampleOne n l ml rnd k of
           (sample, k') \<Rightarrow> sample_loop (i + 1) count n l ml rnd k' (results @ [sample]))
      else (results, k))"
  by pat_completeness auto
termination
  by (relation "measure (\<lambda>(i, count, n, l, ml, rnd, k, results). nat (count - i))") auto

declare sample_loop.simps [simp del]

definition sampleOrbitalPositions ::
  "int \<Rightarrow> int \<Rightarrow> int \<Rightarrow> int \<Rightarrow> rng \<Rightarrow> nat \<Rightarrow> orbitalSample list \<times> nat" where
  "sampleOrbitalPositions n l ml count rnd k = sample_loop 0 count n l ml rnd k []"


subsection \<open>Colour schemes and the visualization state\<close>

datatype schemeName = Quantum | Classic | Neon

record scheme =
  sc_s :: nat
  sc_p :: nat
  sc_d :: nat
  sc_f :: nat
  proton :: nat
  neutron :: nat
  nucleus_glow :: nat
  bg :: nat

definition ORBITAL_COLORS :: "schemeName \<Rightarrow> scheme" where
  "ORBITAL_COLORS nm =
     (case nm of
        Quantum \<Rightarrow> \<lparr>sc_s = 0x60a5fa, sc_p = 0x34d399, sc_d = 0xfbbf24, sc_f = 0xf87171,
                     proton = 0xff6b6b, neutron = 0x94a3b8, nucleus_glow = 0xff4444,
                     bg = 0x0a0e1a\<rparr>
      | Classic \<Rightarrow> \<lparr>sc_s = 0x3b82f6, sc_p = 0x22c55e, sc_d = 0xeab308, sc_f = 0xef4444,
                     proton = 0xe74c3c, neutron = 0x7f8c8d, nucleus_glow = 0xe74c3c,
                     bg = 0x0d1117\<rparr>
      | Neon \<Rightarrow> \<lparr>sc_s = 0x00ccff, sc_p = 0x00ff88, sc_d = 0xffff00, sc_f = 0xff00ff,
                  proton = 0xff3366, neutron = 0x66ffcc, nucleus_glow = 0xff3366,
                  bg = 0x050510\<rparr>)"

datatype viewMode = AtomMode | MoleculeMode

record state =
  mode :: viewMode
  currentMolecule :: string
  elementZ :: int
  cloudDensity :: real
  nucleusScale :: real
  showLabels :: bool
  glowEffects :: bool
  showIndividualOrbitals :: bool
  highlightSubshell :: string
  colorScheme :: schemeName
  animationSpeed :: real

definition initial_state :: state where
  "initial_state =
     \<lparr>mode = AtomMode, currentMolecule = ''H2'', elementZ = 6, cloudDensity = 1.0,
      nucleusScale = 1.0, showLabels = True, glowEffects = True,
      showIndividualOrbitals = True, highlightSubshell = ''all'', colorScheme = Quantum,
      animationSpeed = 1.0\<rparr>"

subsection \<open>Vectors\<close>

text \<open>The operations of the rendering library's three-component vectors that the source
  calls. \<^verbatim>\<open>normalize()\<close> divides by the length, or by 1 when the length is 0.\<close>

definition subVectors :: "vec3 \<Rightarrow> vec3 \<Rightarrow> vec3" where
  "subVectors a b = (case a of (ax, ay, az) \<Rightarrow> case b of (bx, by, bz) \<Rightarrow>
                       (ax - bx, ay - by, az - bz))"

definition addVectors :: "vec3 \<Rightarrow> vec3 \<Rightarrow> vec3" where
  "addVectors a b = (case a of (ax, ay, az) \<Rightarrow> case b of (bx, by, bz) \<Rightarrow>
                       (ax + bx, ay + by, az + bz))"

definition multiplyScalar :: "vec3 \<Rightarrow> real \<Rightarrow> vec3" where
  "multiplyScalar a s = (case a of (ax, ay, az) \<Rightarrow> (ax * s, ay * s, az * s))"

definition negate :: "vec3 \<Rightarrow> vec3" where
  "negate a = (case a of (ax, ay, az) \<Rightarrow> (- ax, - ay, - az))"

definition dot :: "vec3 \<Rightarrow> vec3 \<Rightarrow> real" where
  "dot a b = (case a of (ax, ay, az) \<Rightarrow> case b of (bx, by, bz) \<Rightarrow>
                ax * bx + ay * by + az * bz)"

definition crossVectors :: "vec3 \<Rightarrow> vec3 \<Rightarrow> vec3" where
  "crossVectors a b = (case a of (ax, ay, az) \<Rightarrow> case b of (bx, by, bz) \<Rightarrow>
                         (ay * bz - az * by, az * bx - ax * bz, ax * by - ay * bx))"

definition vlength :: "vec3 \<Rightarrow> real" where
  "vlength a = (case a of (ax, ay, az) \<Rightarrow> sqrt (ax * ax + ay * ay + az * az))"

definition normalize :: "vec3 \<Rightarrow> vec3" where
  "normalize a = (let len = vlength a; d = (if len = 0 then 1 else len)
                  in case a of (ax, ay, az) \<Rightarrow> (ax / d, ay / d, az / d))"

subsection \<open>Nucleus\<close>

datatype nucleon = Proton | Neutron

record nucleonMesh =
  nm_type :: nucleon
  nm_position :: vec3
  nm_color :: nat
  nm_radius :: real

record nucleus =
  nucleons :: "nucleonMesh list"
  glow :: "(real \<times> nat) option"
  nuc_scale :: real
  nuc_position :: vec3
  rotation_x :: real
  rotation_y :: real

text \<open>The Fisher-Yates shuffle
  \<^verbatim>\<open>for (let i = particles.length - 1; i > 0; i--)\<close>; the loop runs while \<open>i > 0\<close>,
  one draw per pass.\<close>

fun shuffle_loop :: "nat \<Rightarrow> nucleon list \<Rightarrow> rng \<Rightarrow> nat \<Rightarrow> nucleon list \<times> nat" where
  "shuffle_loop 0 particles rnd k = (particles, k)"
| "shuffle_loop (Suc i) particles rnd k =
     (let j = nat \<lfloor>rnd k * (real (Suc i) + 1)\<rfloor>
      in shuffle_loop i (particles[Suc i := particles ! j, j := particles ! Suc i]) rnd (k + 1))"

definition nucleonPosition :: "real \<Rightarrow> int \<Rightarrow> nat \<Rightarrow> vec3" where
  "nucleonPosition baseRadius totalCount idx =
     (let phi = arccos (1 - 2 * (real idx + 0.5) / real_of_int totalCount);
          theta = pi * (1 + sqrt 5) * real idx;
          dist = (if idx = 0 then 0
                  else baseRadius * 0.8 * root 3 ((real idx + 1) / real_of_int totalCount) * 1.5)
      in if idx = 0 then (0, 0, 0)
         else (dist * sin phi * cos theta, dist * sin phi * sin theta, dist * cos phi))"

definition buildNucleus ::
  "state \<Rightarrow> int \<Rightarrow> int \<Rightarrow> scheme \<Rightarrow> rng \<Rightarrow> nat \<Rightarrow> nucleus \<times> nat" where
  "buildNucleus st protons neutrons sch rnd k =
     (let totalCount = protons + neutrons;
          baseRadius = 0.18 * (real_of_int totalCount powr 0.2);
          particles = replicate (nat protons) Proton @ replicate (nat neutrons) Neutron
      in case shuffle_loop (length particles - 1) particles rnd k of
           (shuffled, k') \<Rightarrow>
             (\<lparr>nucleons =
                  map (\<lambda>(idx, ty).
                         \<lparr>nm_type = ty,
                          nm_position = nucleonPosition baseRadius totalCount idx,
                          nm_color = (if ty = Proton then proton sch else neutron sch),
                          nm_radius = baseRadius * 0.45\<rparr>)
                      (enumerate 0 shuffled),
                glow = (if glowEffects st then Some (baseRadius * 2.5, nucleus_glow sch)
                        else None),
                nuc_scale = 1, nuc_position = (0, 0, 0), rotation_x = 0, rotation_y = 0\<rparr>,
              k'))"

definition getSubshellColor :: "state \<Rightarrow> int \<Rightarrow> nat" where
  "getSubshellColor st l =
     (let sch = ORBITAL_COLORS (colorScheme st);
          cs = [sc_s sch, sc_p sch, sc_d sch, sc_f sch]
      in if 0 \<le> l \<and> l < 4 \<and> cs ! nat l \<noteq> 0 then cs ! nat l else sc_s sch)"

subsection \<open>Orbital clouds\<close>

datatype error = TypeError | RangeError

datatype userData =
  OrbitalCloud (ud_subshellLabel: string) (ud_n: int) (ud_l: int) (ud_ml: int)
    (ud_electronCount: int)
| BondCloud

record points =
  positions :: "real list"
  colors :: "real list"
  opacity :: real
  pt_size :: real
  pt_position :: vec3
  userData :: userData

text \<open>An entry of the array \<open>orbitalClouds\<close>. The source keeps the point object both in
  the scene group and in this entry; the model keeps it here, and the scene group refers
  to the entry by its index.\<close>

record cloud =
  c_points :: points
  basePositions :: "real list"
  c_label :: string
  c_n :: int
  c_l :: int
  c_ml :: int

text \<open>\<^verbatim>\<open>Math.round\<close> rounds to the nearest integer, a half upwards.\<close>

definition js_round :: "real \<Rightarrow> int" where
  "js_round x = \<lfloor>x + 1 / 2\<rfloor>"

definition maxDensityOf :: "orbitalSample list \<Rightarrow> real" where
  "maxDensityOf samples =
     (let maxDensity = fold (\<lambda>s m. if density s > m then density s else m) samples 0
      in if maxDensity = 0 then 1 else maxDensity)"

text \<open>\<^verbatim>\<open>new Float32Array(len)\<close> throws a RangeError for a negative length; the samples
  are drawn before the arrays are allocated.\<close>

definition buildOrbitalCloud ::
  "int \<Rightarrow> int \<Rightarrow> int \<Rightarrow> int \<Rightarrow> real \<Rightarrow> rng \<Rightarrow> nat \<Rightarrow> error + ((points \<times> real list) \<times> nat)" where
  "buildOrbitalCloud n l ml electronCount densityMultiplier rnd k =
     (let particleCount = js_round (real_of_int electronCount * 5000 * densityMultiplier)
      in case sampleOrbitalPositions n l ml particleCount rnd k of
           (samples, k') \<Rightarrow>
             if particleCount * 3 < 0 then Inl RangeError
             else
               (let maxDensity = maxDensityOf samples;
                    posArray = concat (map (\<lambda>s. case pos s of (x, y, z) \<Rightarrow> [x, y, z]) samples);
                    basePos = posArray;
                    colArray =
                      concat (map (\<lambda>s. case densityToHeatmap ((density s / maxDensity) powr 0.6)
                                          of (r, g, b) \<Rightarrow> [r, g, b]) samples)
                in Inr ((\<lparr>positions = posArray, colors = colArray, opacity = 0.85,
                           pt_size = 0.065, pt_position = (0, 0, 0),
                           userData = OrbitalCloud (show_nat (nat n) @ SUBSHELL_LABELS ! nat l)
                                        n l ml electronCount\<rparr>,
                         basePos), k')))"

subsection \<open>Labels\<close>

text \<open>The text of a label: plain, or a text followed by the digits of a number as
  superscript glyphs. The colour is a style string or a colour of the scheme.\<close>

datatype labelText = Plain string | WithSuperscript string string

datatype labelColor = Css string | Hex nat

record label =
  lb_text :: labelText
  lb_position :: vec3
  lb_color :: labelColor

definition createLabel :: "labelText \<Rightarrow> vec3 \<Rightarrow> labelColor \<Rightarrow> label" where
  "createLabel txt position col = \<lparr>lb_text = txt, lb_position = position, lb_color = col\<rparr>"

definition show_int :: "int \<Rightarrow> string" where
  "show_int i = (if i < 0 then CHR ''-'' # show_nat (nat (- i)) else show_nat (nat i))"

subsection \<open>Molecule presets\<close>

datatype bondType = Covalent | Polar | Ionic

record atomSpec =
  a_z :: int
  a_pos :: vec3

record bond =
  b_from :: nat
  b_to :: nat
  b_order :: int
  b_type :: bondType

text \<open>A preset's name and info text only feed the page, and are left out.\<close>

record molecule =
  m_atoms :: "atomSpec list"
  m_bonds :: "bond list"

definition mkAtom :: "int \<Rightarrow> vec3 \<Rightarrow> atomSpec" where
  "mkAtom zz p = \<lparr>a_z = zz, a_pos = p\<rparr>"

definition mkBond :: "nat \<Rightarrow> nat \<Rightarrow> int \<Rightarrow> bondType \<Rightarrow> bond" where
  "mkBond f t ord ty = \<lparr>b_from = f, b_to = t, b_order = ord, b_type = ty\<rparr>"

definition MOLECULE_LIST :: "(string \<times> molecule) list" where
  "MOLECULE_LIST =
   [(''H2'', \<lparr>m_atoms = [mkAtom 1 (-1.5, 0, 0), mkAtom 1 (1.5, 0, 0)],
              m_bonds = [mkBond 0 1 1 Covalent]\<rparr>),
    (''O2'', \<lparr>m_atoms = [mkAtom 8 (-2.0, 0, 0), mkAtom 8 (2.0, 0, 0)],
              m_bonds = [mkBond 0 1 2 Covalent]\<rparr>),
    (''N2'', \<lparr>m_atoms = [mkAtom 7 (-1.8, 0, 0), mkAtom 7 (1.8, 0, 0)],
              m_bonds = [mkBond 0 1 3 Covalent]\<rparr>),
    (''H2O'', \<lparr>m_atoms = [mkAtom 8 (0, 0.4, 0), mkAtom 1 (-2.0, -1.2, 0),
                          mkAtom 1 (2.0, -1.2, 0)],
               m_bonds = [mkBond 0 1 1 Polar, mkBond 0 2 1 Polar]\<rparr>),
    (''CO2'', \<lparr>m_atoms = [mkAtom 6 (0, 0, 0), mkAtom 8 (-3.0, 0, 0), mkAtom 8 (3.0, 0, 0)],
               m_bonds = [mkBond 0 1 2 Polar, mkBond 0 2 2 Polar]\<rparr>),
    (''NaCl'', \<lparr>m_atoms = [mkAtom 11 (-2.5, 0, 0), mkAtom 17 (2.5, 0, 0)],
                m_bonds = [mkBond 0 1 1 Ionic]\<rparr>),
    (''CH4'', \<lparr>m_atoms = [mkAtom 6 (0, 0, 0), mkAtom 1 (2.2, 2.2, 2.2),
                          mkAtom 1 (2.2, -2.2, -2.2), mkAtom 1 (-2.2, 2.2, -2.2),
                          mkAtom 1 (-2.2, -2.2, 2.2)],
               m_bonds = [mkBond 0 1 1 Covalent, mkBond 0 2 1 Covalent,
                          mkBond 0 3 1 Covalent, mkBond 0 4 1 Covalent]\<rparr>),
    (''NH3'', \<lparr>m_atoms = [mkAtom 7 (0, 0.8, 0), mkAtom 1 (-2.0, -1.0, 1.15),
                          mkAtom 1 (2.0, -1.0, 1.15), mkAtom 1 (0, -1.0, -2.3)],
               m_bonds = [mkBond 0 1 1 Polar, mkBond 0 2 1 Polar, mkBond 0 3 1 Polar]\<rparr>)]"

definition MOLECULES :: "string \<rightharpoonup> molecule" where
  "MOLECULES = map_of MOLECULE_LIST"

subsection \<open>Bonds\<close>

record bondMesh =
  bm_glow :: bool
  bm_position :: vec3
  bm_radius :: real
  bm_length :: real
  bm_color :: nat
  bm_axis :: vec3

definition bondColor :: "bondType \<Rightarrow> nat" where
  "bondColor ty = (case ty of Covalent \<Rightarrow> 0x88ccff | Polar \<Rightarrow> 0xffaa44 | Ionic \<Rightarrow> 0xffee44)"

text \<open>The offsets for multi-bond rendering that buildBondCylinder computes from the bond
  direction \<open>dir\<close>, its length and the bond order. A comparison with the quotient by a
  length of 0 is false in the source; here the quotient is 0, and the comparison false
  as well.\<close>

definition bondOffsets :: "vec3 \<Rightarrow> real \<Rightarrow> int \<Rightarrow> vec3 list" where
  "bondOffsets dir len order =
     (if order = 1 then [(0, 0, 0)]
      else if order = 2 then
        (let perp = (if \<bar>dot dir (0, 1, 0)\<bar> / len > 0.9 then (1, 0, 0) else (0, 1, 0));
             offset = multiplyScalar (normalize (crossVectors dir perp)) 0.15
         in [offset, negate offset])
      else if order = 3 then
        (let perp = (if \<bar>dot dir (0, 1, 0)\<bar> / len > 0.9 then (1, 0, 0) else (0, 1, 0));
             offset = multiplyScalar (normalize (crossVectors dir perp)) 0.2
         in [(0, 0, 0), offset, negate offset])
      else [])"

definition buildBondCylinder :: "vec3 \<Rightarrow> vec3 \<Rightarrow> int \<Rightarrow> bondType \<Rightarrow> bondMesh list" where
  "buildBondCylinder posA posB order ty =
     (let color = bondColor ty;
          dir = subVectors posB posA;
          len = vlength dir;
          mid = multiplyScalar (addVectors posA posB) 0.5;
          offsets = bondOffsets dir len order;
          radius = (if order = 1 then 0.06 else 0.04)
      in concat (map (\<lambda>offset.
                        [\<lparr>bm_glow = False, bm_position = addVectors mid offset,
                          bm_radius = radius, bm_length = len, bm_color = color,
                          bm_axis = normalize dir\<rparr>,
                         \<lparr>bm_glow = True, bm_position = addVectors mid offset,
                          bm_radius = radius * 3, bm_length = len, bm_color = color,
                          bm_axis = normalize dir\<rparr>]) offsets))"

text \<open>One particle of the bond cloud: three draws, its position and its colour.\<close>

definition bondParticle ::
  "vec3 \<Rightarrow> vec3 \<Rightarrow> vec3 \<Rightarrow> vec3 \<Rightarrow> real \<Rightarrow> int \<Rightarrow> rng \<Rightarrow> nat \<Rightarrow> vec3 \<times> color" where
  "bondParticle mid dirNorm perp1 perp2 len order rnd k =
     (let t = (rnd k - 0.5) * len * 0.7;
          spreadRadius = 0.25 + real_of_int order * 0.08;
          angle = rnd (k + 1) * pi * 2;
          safeRand = max 0.000001 (rnd (k + 2));
          r = min (spreadRadius * sqrt (- 2 * ln safeRand)) (spreadRadius * 3);
          p = addVectors (addVectors (addVectors mid (multiplyScalar dirNorm t))
                                     (multiplyScalar perp1 (r * cos angle)))
                         (multiplyScalar perp2 (r * sin angle));
          distFromCenter = \<bar>t\<bar> / (len * 0.35);
          dens = (max 0 (1 - distFromCenter)) powr 0.8
      in (p, densityToHeatmap dens))"

text \<open>The computed coordinates are always finite in the model, so the branch of the
  source that substitutes the midpoint for a non-finite position is never taken.\<close>

definition buildBondCloud ::
  "state \<Rightarrow> vec3 \<Rightarrow> vec3 \<Rightarrow> int \<Rightarrow> rng \<Rightarrow> nat \<Rightarrow> error + ((points \<times> real list) option \<times> nat)" where
  "buildBondCloud st posA posB order rnd k =
     (let dir = subVectors posB posA;
          len = vlength dir
      in if len < 0.001 then Inr (None, k)
         else
           (let mid = multiplyScalar (addVectors posA posB) 0.5;
                dirNorm = normalize dir;
                up = (if \<bar>dot dirNorm (0, 1, 0)\<bar> > 0.9 then (1, 0, 0) else (0, 1, 0));
                perp1 = normalize (crossVectors dirNorm up);
                perp2 = normalize (crossVectors dirNorm perp1);
                particleCount = js_round (real_of_int order * 2000 * cloudDensity st)
            in if particleCount * 3 < 0 then Inl RangeError
               else
                 (let ps = map (\<lambda>i. bondParticle mid dirNorm perp1 perp2 len order rnd (k + 3 * i))
                               [0..<nat particleCount];
                      posArray = concat (map (\<lambda>(p, c). case p of (x, y, z) \<Rightarrow> [x, y, z]) ps);
                      colArray = concat (map (\<lambda>(p, c). case c of (r, g, b) \<Rightarrow> [r, g, b]) ps)
                  in Inr (Some (\<lparr>positions = posArray, colors = colArray, opacity = 0.8,
                                  pt_size = 0.07, pt_position = (0, 0, 0),
                                  userData = BondCloud\<rparr>, posArray),
                          k + 3 * nat particleCount))))"


subsection \<open>The scene and its assembly\<close>

text \<open>A child of the scene group \<open>atomGroup\<close>. The nucleus of atom mode is the object
  the global \<open>nucleusGroup\<close> names; a point cloud is the one of the entry of
  \<open>orbitalClouds\<close> with the given index.\<close>

datatype sceneNode =
  NucleusGlobal
| NucleusNode nucleus
| PointsRef nat
| LabelNode label
| BondGroup "bondMesh list"

record world =
  atomGroup :: "sceneNode list"
  orbitalClouds :: "cloud list"
  labelSprites :: "label list"
  nucleusGroup :: "nucleus option"

text \<open>\<^verbatim>\<open>atomGroup.add(points); orbitalClouds.push({ points, basePositions, ... })\<close>\<close>

definition addCloud :: "world \<Rightarrow> cloud \<Rightarrow> world" where
  "addCloud w c =
     w\<lparr>atomGroup := atomGroup w @ [PointsRef (length (orbitalClouds w))],
       orbitalClouds := orbitalClouds w @ [c]\<rparr>"

definition addLabel :: "world \<Rightarrow> label \<Rightarrow> world" where
  "addLabel w lab =
     w\<lparr>atomGroup := atomGroup w @ [LabelNode lab], labelSprites := labelSprites w @ [lab]\<rparr>"

text \<open>The scene group is emptied child by child, each child disposed of; the lists of
  clouds and labels are reset.\<close>

definition clearScene :: "world \<Rightarrow> world" where
  "clearScene w = w\<lparr>atomGroup := [], orbitalClouds := [], labelSprites := []\<rparr>"

text \<open>rebuildAtom: the part of the orbital loop's body after the \<^verbatim>\<open>break\<close> test, which
  builds the cloud of one orbital and adds it to the scene.\<close>

definition atomOrbital ::
  "filled \<Rightarrow> bool \<Rightarrow> real \<Rightarrow> int \<Rightarrow> int \<Rightarrow> world \<Rightarrow> rng \<Rightarrow> nat \<Rightarrow> error + (world \<times> nat)" where
  "atomOrbital sub isHighlighted densityMult ml eInThis w rnd k =
     (case buildOrbitalCloud (sub_n sub) (sub_l sub) ml eInThis densityMult rnd k of
        Inl e \<Rightarrow> Inl e
      | Inr ((pts, basePos), k') \<Rightarrow>
          (let pts' = (if \<not> isHighlighted then pts\<lparr>opacity := 0.15\<rparr> else pts)
           in Inr (addCloud w \<lparr>c_points = pts', basePositions = basePos,
                                c_label = sub_label sub, c_n = sub_n sub, c_l = sub_l sub,
                                c_ml = ml\<rparr>, k')))"

text \<open>rebuildAtom: \<^verbatim>\<open>for (let ml = -sub.l; ml <= sub.l; ml++)\<close> with \<open>electronsLeft\<close>
  as its state. The source has the loop twice, word for word, in the two branches on
  \<open>showIndividualOrbitals\<close>.\<close>

function atom_orbital_loop ::
  "filled \<Rightarrow> bool \<Rightarrow> real \<Rightarrow> int \<Rightarrow> int \<Rightarrow> world \<Rightarrow> rng \<Rightarrow> nat \<Rightarrow> error + (world \<times> nat)" where
  "atom_orbital_loop sub isHighlighted densityMult ml electronsLeft w rnd k =
     (if ml \<le> sub_l sub then
        (let eInThis = min electronsLeft 2 in
         if eInThis \<le> 0 then Inr (w, k)
         else (case atomOrbital sub isHighlighted densityMult ml eInThis w rnd k of
                 Inl e \<Rightarrow> Inl e
               | Inr (w', k') \<Rightarrow>
                   atom_orbital_loop sub isHighlighted densityMult (ml + 1)
                     (electronsLeft - eInThis) w' rnd k'))
      else Inr (w, k))"
  by pat_completeness auto
termination
  by (relation "measure (\<lambda>(sub, h, d, ml, e, w, rnd, k). nat (sub_l sub + 1 - ml))") auto

declare atom_orbital_loop.simps [simp del]

text \<open>rebuildAtom: the body of \<^verbatim>\<open>config.forEach(sub => ...)\<close>.\<close>

definition atomSubshell ::
  "state \<Rightarrow> filled \<Rightarrow> world \<Rightarrow> rng \<Rightarrow> nat \<Rightarrow> error + (world \<times> nat)" where
  "atomSubshell st sub w rnd k =
     (let isHighlighted = (highlightSubshell st = ''all'' \<or> highlightSubshell st = sub_label sub);
          densityMult = cloudDensity st * (if isHighlighted then 1 else 0.15)
      in case (if showIndividualOrbitals st
               then atom_orbital_loop sub isHighlighted densityMult (- sub_l sub) (electrons sub)
                      w rnd k
               else atom_orbital_loop sub isHighlighted densityMult (- sub_l sub) (electrons sub)
                      w rnd k) of
           Inl e \<Rightarrow> Inl e
         | Inr (w1, k1) \<Rightarrow>
             if showLabels st \<and> isHighlighted then
               (let R = radialScale (sub_n sub);
                    offsetAngle = real_of_int (sub_l sub) * 0.8;
                    labelPos = ((R + 1.2) * cos offsetAngle,
                                1.0 + real_of_int (sub_l sub) * 0.4,
                                (R + 1.2) * sin offsetAngle);
                    lab = createLabel (WithSuperscript (sub_label sub) (show_int (electrons sub)))
                            labelPos (Hex (getSubshellColor st (sub_l sub)))
                in Inr (addLabel w1 lab, k1))
             else Inr (w1, k1))"

fun atom_subshells ::
  "state \<Rightarrow> filled list \<Rightarrow> world \<Rightarrow> rng \<Rightarrow> nat \<Rightarrow> error + (world \<times> nat)" where
  "atom_subshells st [] w rnd k = Inr (w, k)"
| "atom_subshells st (sub # rest) w rnd k =
     (case atomSubshell st sub w rnd k of
        Inl e \<Rightarrow> Inl e
      | Inr (w', k') \<Rightarrow> atom_subshells st rest w' rnd k')"

text \<open>rebuildAtom. \<^verbatim>\<open>ELEMENTS[state.elementZ]\<close> is \<^verbatim>\<open>undefined\<close> for a number that
  is not a key, and reading \<^verbatim>\<open>element.z\<close> for the call of buildNucleus then throws a
  TypeError. The updates of the page that follow the assembly are external.\<close>

definition rebuildAtom :: "state \<Rightarrow> world \<Rightarrow> rng \<Rightarrow> nat \<Rightarrow> error + (world \<times> nat)" where
  "rebuildAtom st w rnd k =
     (let w0 = clearScene w;
          element = ELEMENTS (elementZ st);
          sch = ORBITAL_COLORS (colorScheme st);
          config = getElectronConfiguration (elementZ st)
      in case element of
           None \<Rightarrow> Inl TypeError
         | Some el \<Rightarrow>
             (case buildNucleus st (el_z el) (el_neutrons el) sch rnd k of
                (nuc, k1) \<Rightarrow>
                  (let w1 = w0\<lparr>nucleusGroup := Some (nuc\<lparr>nuc_scale := nucleusScale st\<rparr>),
                               atomGroup := atomGroup w0 @ [NucleusGlobal]\<rparr>;
                       w2 = (if showLabels st then
                               addLabel w1
                                 (createLabel
                                    (Plain (show_int (el_z el) @ ''p  ''
                                            @ show_int (el_neutrons el) @ ''n''))
                                    (0, - 1.6 * nucleusScale st, 0) (Css ''#94a3b8''))
                             else w1)
                   in atom_subshells st config w2 rnd k1)))"

text \<open>rebuildMolecule: the orbital loop of one subshell of one atom, its body after the
  \<^verbatim>\<open>break\<close> test first.\<close>

definition molOrbital ::
  "state \<Rightarrow> vec3 \<Rightarrow> filled \<Rightarrow> int \<Rightarrow> int \<Rightarrow> world \<Rightarrow> rng \<Rightarrow> nat \<Rightarrow> error + (world \<times> nat)" where
  "molOrbital st offset sub ml eInThis w rnd k =
     (let densityMult = cloudDensity st * 0.4
      in case buildOrbitalCloud (sub_n sub) (sub_l sub) ml eInThis densityMult rnd k of
           Inl e \<Rightarrow> Inl e
         | Inr ((pts, basePos), k') \<Rightarrow>
             Inr (addCloud w \<lparr>c_points = pts\<lparr>pt_position := offset, opacity := 0.35\<rparr>,
                              basePositions = basePos, c_label = sub_label sub,
                              c_n = sub_n sub, c_l = sub_l sub, c_ml = ml\<rparr>, k'))"

function mol_orbital_loop ::
  "state \<Rightarrow> vec3 \<Rightarrow> filled \<Rightarrow> int \<Rightarrow> int \<Rightarrow> world \<Rightarrow> rng \<Rightarrow> nat \<Rightarrow> error + (world \<times> nat)" where
  "mol_orbital_loop st offset sub ml electronsLeft w rnd k =
     (if ml \<le> sub_l sub then
        (let eInThis = min electronsLeft 2 in
         if eInThis \<le> 0 then Inr (w, k)
         else (case molOrbital st offset sub ml eInThis w rnd k of
                 Inl e \<Rightarrow> Inl e
               | Inr (w', k') \<Rightarrow>
                   mol_orbital_loop st offset sub (ml + 1) (electronsLeft - eInThis) w' rnd k'))
      else Inr (w, k))"
  by pat_completeness auto
termination
  by (relation "measure (\<lambda>(st, off, sub, ml, e, w, rnd, k). nat (sub_l sub + 1 - ml))") auto

declare mol_orbital_loop.simps [simp del]

fun mol_subshells ::
  "state \<Rightarrow> vec3 \<Rightarrow> filled list \<Rightarrow> world \<Rightarrow> rng \<Rightarrow> nat \<Rightarrow> error + (world \<times> nat)" where
  "mol_subshells st offset [] w rnd k = Inr (w, k)"
| "mol_subshells st offset (sub # rest) w rnd k =
     (case mol_orbital_loop st offset sub (- sub_l sub) (electrons sub) w rnd k of
        Inl e \<Rightarrow> Inl e
      | Inr (w', k') \<Rightarrow> mol_subshells st offset rest w' rnd k')"

text \<open>rebuildMolecule: the body of \<^verbatim>\<open>mol.atoms.forEach((atom, idx) => ...)\<close>. An atom
  whose number is not a key of \<open>ELEMENTS\<close> is skipped.\<close>

definition molAtom ::
  "state \<Rightarrow> scheme \<Rightarrow> atomSpec \<Rightarrow> world \<Rightarrow> rng \<Rightarrow> nat \<Rightarrow> error + (world \<times> nat)" where
  "molAtom st sch atom w rnd k =
     (case ELEMENTS (a_z atom) of
        None \<Rightarrow> Inr (w, k)
      | Some el \<Rightarrow>
          (let offset = a_pos atom in
           case buildNucleus st (el_z el) (el_neutrons el) sch rnd k of
             (nuc, k1) \<Rightarrow>
               (let w1 = w\<lparr>atomGroup := atomGroup w
                              @ [NucleusNode (nuc\<lparr>nuc_scale := nucleusScale st * 0.7,
                                                   nuc_position := offset\<rparr>)]\<rparr>;
                    config = getElectronConfiguration (a_z atom)
                in case mol_subshells st offset config w1 rnd k1 of
                     Inl e \<Rightarrow> Inl e
                   | Inr (w2, k2) \<Rightarrow>
                       if showLabels st then
                         Inr (addLabel w2
                                (createLabel (Plain (el_symbol el))
                                   (addVectors offset (0, - 1.5, 0)) (Css ''#e2e8f0'')), k2)
                       else Inr (w2, k2))))"

fun mol_atoms ::
  "state \<Rightarrow> scheme \<Rightarrow> atomSpec list \<Rightarrow> world \<Rightarrow> rng \<Rightarrow> nat \<Rightarrow> error + (world \<times> nat)" where
  "mol_atoms st sch [] w rnd k = Inr (w, k)"
| "mol_atoms st sch (atom # rest) w rnd k =
     (case molAtom st sch atom w rnd k of
        Inl e \<Rightarrow> Inl e
      | Inr (w', k') \<Rightarrow> mol_atoms st sch rest w' rnd k')"

text \<open>rebuildMolecule: the body of \<^verbatim>\<open>mol.bonds.forEach(bond => ...)\<close>. Reading
  \<^verbatim>\<open>pos\<close> of an atom index that is out of range throws a TypeError.\<close>

definition molBond ::
  "state \<Rightarrow> molecule \<Rightarrow> bond \<Rightarrow> world \<Rightarrow> rng \<Rightarrow> nat \<Rightarrow> error + (world \<times> nat)" where
  "molBond st mol b w rnd k =
     (if b_from b < length (m_atoms mol) \<and> b_to b < length (m_atoms mol) then
        (let posA = a_pos (m_atoms mol ! b_from b);
             posB = a_pos (m_atoms mol ! b_to b);
             bondGroup = buildBondCylinder posA posB (b_order b) (b_type b);
             w1 = w\<lparr>atomGroup := atomGroup w @ [BondGroup bondGroup]\<rparr>
         in case buildBondCloud st posA posB (b_order b) rnd k of
              Inl e \<Rightarrow> Inl e
            | Inr (None, k') \<Rightarrow> Inr (w1, k')
            | Inr (Some (pts, basePos), k') \<Rightarrow>
                Inr (addCloud w1 \<lparr>c_points = pts, basePositions = basePos, c_label = ''bond'',
                                  c_n = 1, c_l = 0, c_ml = 0\<rparr>, k'))
      else Inl TypeError)"

fun mol_bonds ::
  "state \<Rightarrow> molecule \<Rightarrow> bond list \<Rightarrow> world \<Rightarrow> rng \<Rightarrow> nat \<Rightarrow> error + (world \<times> nat)" where
  "mol_bonds st mol [] w rnd k = Inr (w, k)"
| "mol_bonds st mol (b # rest) w rnd k =
     (case molBond st mol b w rnd k of
        Inl e \<Rightarrow> Inl e
      | Inr (w', k') \<Rightarrow> mol_bonds st mol rest w' rnd k')"

text \<open>rebuildMolecule after the preset has been found: the atoms, then the bonds. The
  centre and extent of the molecule only place the camera, which is external, as are the
  updates of the page.\<close>

definition assembleMolecule ::
  "state \<Rightarrow> molecule \<Rightarrow> world \<Rightarrow> rng \<Rightarrow> nat \<Rightarrow> error + (world \<times> nat)" where
  "assembleMolecule st mol w rnd k =
     (let sch = ORBITAL_COLORS (colorScheme st)
      in case mol_atoms st sch (m_atoms mol) w rnd k of
           Inl e \<Rightarrow> Inl e
         | Inr (w1, k1) \<Rightarrow> mol_bonds st mol (m_bonds mol) w1 rnd k1)"

definition rebuildMolecule :: "state \<Rightarrow> world \<Rightarrow> rng \<Rightarrow> nat \<Rightarrow> error + (world \<times> nat)" where
  "rebuildMolecule st w rnd k =
     (let w0 = clearScene w
      in case MOLECULES (currentMolecule st) of
           None \<Rightarrow> Inr (w0, k)
         | Some mol \<Rightarrow> assembleMolecule st mol w0 rnd k)"

subsection \<open>Animation\<close>

text \<open>One pass through the body of the loop over the position buffer in animate: the
  three components of the point that starts at index \<open>i\<close>. A write to a typed array
  at an index out of range is ignored, as a list update is.\<close>

definition jitter_pass :: "nat \<Rightarrow> real \<Rightarrow> real \<Rightarrow> real \<Rightarrow> real list \<Rightarrow> real list \<Rightarrow> real list" where
  "jitter_pass i elapsed speed breathe base ps =
     (let jitterScale = 0.03 * speed
      in ps[i := base ! i * breathe + sin (elapsed * 2.3 + real i) * jitterScale,
            i + 1 := base ! (i + 1) * breathe + cos (elapsed * 1.7 + real i) * jitterScale,
            i + 2 := base ! (i + 2) * breathe + sin (elapsed * 3.1 + real i + 1) * jitterScale])"

lemma length_jitter_pass [simp]:
  "length (jitter_pass i elapsed speed breathe base ps) = length ps"
  by (simp add: jitter_pass_def)

text \<open>\<^verbatim>\<open>for (let i = 0; i < positions.length; i += 3)\<close>\<close>

function jitter_loop :: "nat \<Rightarrow> real \<Rightarrow> real \<Rightarrow> real \<Rightarrow> real list \<Rightarrow> real list \<Rightarrow> real list" where
  "jitter_loop i elapsed speed breathe base ps =
     (if i < length ps
      then jitter_loop (i + 3) elapsed speed breathe base
             (jitter_pass i elapsed speed breathe base ps)
      else ps)"
  by pat_completeness auto
termination
  by (relation "measure (\<lambda>(i, elapsed, speed, breathe, base, ps). length ps - i)") auto

declare jitter_loop.simps [simp del]

text \<open>animate: the body of \<^verbatim>\<open>orbitalClouds.forEach(cloud => ...)\<close>.\<close>

definition animateCloud :: "real \<Rightarrow> state \<Rightarrow> cloud \<Rightarrow> cloud" where
  "animateCloud elapsed st c =
     (let base = basePositions c;
          speed = animationSpeed st;
          phase = elapsed * speed * 0.8 + real_of_int (c_n c) * 1.3 + real_of_int (c_l c) * 0.7;
          breathe = 1.0 + sin phase * 0.04;
          newPositions = jitter_loop 0 elapsed speed breathe base (positions (c_points c));
          opacityBase = (if highlightSubshell st = ''all'' \<or> highlightSubshell st = c_label c
                         then 0.7 else 0.12)
      in c\<lparr>c_points := (c_points c)\<lparr>positions := newPositions,
                                       opacity := opacityBase + sin (phase * 0.5) * 0.08\<rparr>\<rparr>)"

text \<open>animate, for one frame at the clock's \<open>elapsed\<close> time and \<open>delta\<close>: the nucleus
  wobble and the clouds. The star field, the camera controls and the renderer are
  external.\<close>

definition animate :: "real \<Rightarrow> real \<Rightarrow> state \<Rightarrow> world \<Rightarrow> world" where
  "animate elapsed delta st w =
     w\<lparr>nucleusGroup :=
         map_option (\<lambda>nuc. nuc\<lparr>rotation_y := rotation_y nuc + delta * 0.15,
                                rotation_x := sin (elapsed * 0.3) * 0.08\<rparr>) (nucleusGroup w),
       orbitalClouds := map (animateCloud elapsed st) (orbitalClouds w)\<rparr>"

text \<open>The jitter of the buffer index \<open>j\<close> per unit of amplitude, as the three
  assignments of the loop body compute it: a function of the elapsed time and the index.\<close>

definition jitterOf :: "real \<Rightarrow> nat \<Rightarrow> real" where
  "jitterOf elapsed j =
     (if j mod 3 = 0 then sin (elapsed * 2.3 + real j)
      else if j mod 3 = 1 then cos (elapsed * 1.7 + real (j - 1))
      else sin (elapsed * 3.1 + real (j - 2) + 1))"

subsection \<open>The electron-to-orbital distribution rule of the specification\<close>

text \<open>Within a subshell, iterate \<open>m\<^sub>l\<close> from \<open>-l\<close> to \<open>+l\<close>, assign
  \<open>min(remaining, 2)\<close> electrons per orbital, and stop when \<open>remaining\<close> reaches 0. The
  result lists the orbitals that receive electrons, each with its count.\<close>

function orbital_distribution_from :: "int \<Rightarrow> int \<Rightarrow> int \<Rightarrow> (int \<times> int) list" where
  "orbital_distribution_from ml l remaining =
     (if ml \<le> l \<and> 0 < remaining
      then (ml, min remaining 2)
           # orbital_distribution_from (ml + 1) l (remaining - min remaining 2)
      else [])"
  by pat_completeness auto
termination
  by (relation "measure (\<lambda>(ml, l, remaining). nat (l + 1 - ml))") auto

declare orbital_distribution_from.simps [simp del]

definition orbital_distribution :: "int \<Rightarrow> int \<Rightarrow> (int \<times> int) list" where
  "orbital_distribution l e = orbital_distribution_from (- l) l e"

text \<open>What identifies a cloud of the scene: its quantum numbers and the number of
  electrons it stands for.\<close>

definition cloudTag :: "cloud \<Rightarrow> int \<times> int \<times> int \<times> int" where
  "cloudTag c = (c_n c, c_l c, c_ml c, ud_electronCount (userData (c_points c)))"

text \<open>The clouds the rule prescribes for a subshell of a configuration.\<close>

definition subshellTags :: "filled \<Rightarrow> (int \<times> int \<times> int \<times> int) list" where
  "subshellTags sub =
     map (\<lambda>(m, e). (sub_n sub, sub_l sub, m, e))
         (orbital_distribution (sub_l sub) (electrons sub))"

subsection \<open>Concrete inputs\<close>

text \<open>The 2p subshell with three electrons (nitrogen), the scene before the first
  assembly, and a scene with one cloud of a single point.\<close>

definition sub_2p3 :: filled where
  "sub_2p3 = \<lparr>sub_n = 2, sub_l = 1, sub_label = ''2p'', maxElectrons = 6, electrons = 3\<rparr>"

definition empty_world :: world where
  "empty_world = \<lparr>atomGroup = [], orbitalClouds = [], labelSprites = [], nucleusGroup = None\<rparr>"


definition demo_cloud :: cloud where
  "demo_cloud =
     \<lparr>c_points = \<lparr>positions = [1, 2, 3], colors = [1, 1, 1], opacity = 0.85,
                   pt_size = 0.065, pt_position = (0, 0, 0),
                   userData = OrbitalCloud ''1s'' 1 0 0 1\<rparr>,
      basePositions = [1, 2, 3], c_label = ''1s'', c_n = 1, c_l = 0, c_ml = 0\<rparr>"

definition demo_world :: world where
  "demo_world = empty_world\<lparr>orbitalClouds := [demo_cloud], atomGroup := [PointsRef 0]\<rparr>"

text \<open>Two sequences of draws, each with values in \<open>[0, 1)\<close>. In both the radial sampler
  accepts its first attempt (the second draw is 0) and every angular attempt of the p
  sampler for \<open>m\<^sub>l = 0\<close> is rejected (the direction drawn lies in the nodal plane); they
  differ in the draw that chooses the sign of the fallback direction.\<close>

definition rnd_a :: rng where
  "rnd_a i = (if i = 1 then 0 else 1 / 2)"

definition rnd_b :: rng where
  "rnd_b i = (if i = 1 then 0 else if i = 1502 then 1 / 4 else 1 / 2)"

subsection \<open>The fallback of the angular samplers\<close>

text \<open>The call of the sampler for \<open>(n, l, m\<^sub>l)\<close> that starts at draw \<open>k\<close> runs out of
  angular attempts.\<close>

definition exhausted :: "int \<Rightarrow> int \<Rightarrow> int \<Rightarrow> rng \<Rightarrow> nat \<Rightarrow> bool" where
  "exhausted n l ml rnd k =
     (if l = 1 then fst (p_attempts 500 ml rnd (snd (sampleRadius n 1 rnd k))) = None
      else if l = 2 then fst (d_attempts 500 ml rnd (snd (sampleRadius n 2 rnd k))) = None
      else if l = 3 then fst (f_attempts 500 ml rnd (snd (sampleRadius n 3 rnd k))) = None
      else False)"

text \<open>The peak-density directions of the orbital \<open>(l, m\<^sub>l)\<close>, measured by the angular
  value of its own sampler. For p the angular value is at most 1 on the unit sphere, and
  a peak direction is a unit vector within the spread of the lobe axis: its angular
  value is at least 0.98. For d and f a peak direction is a direction
  \<open>sphereDirection phi cosT\<close> in which the angular value is largest; the vector may be
  shorter than a unit vector by up to a thousandth, since the code writes
  \<open>0.707\<close> for \<open>1 / \<surd>2\<close>.\<close>

definition peakDirections :: "int \<Rightarrow> int \<Rightarrow> vec3 set" where
  "peakDirections l ml =
     (if l = 1 then
        {v. (case v of (x, y, z) \<Rightarrow> x * x + y * y + z * z = 1) \<and> 0.98 \<le> p_angularVal ml v}
      else if l = 2 then
        {multiplyScalar (sphereDirection phi cosT) c | phi cosT c.
           - 1 \<le> cosT \<and> cosT \<le> 1 \<and> 0.999 \<le> c \<and> c \<le> 1
           \<and> (\<forall>phi' cosT'. - 1 \<le> cosT' \<and> cosT' \<le> 1
                  \<longrightarrow> d_angularVal ml phi' cosT' \<le> d_angularVal ml phi cosT)}
      else
        {multiplyScalar (sphereDirection phi cosT) c | phi cosT c.
           - 1 \<le> cosT \<and> cosT \<le> 1 \<and> 0.999 \<le> c \<and> c \<le> 1
           \<and> (\<forall>phi' cosT'. - 1 \<le> cosT' \<and> cosT' \<le> 1
                  \<longrightarrow> f_angularVal ml phi' cosT' \<le> f_angularVal ml phi cosT)})"

section \<open>Auxiliary functions for the analysis of the radial density\<close>

text \<open>The functions of this section are not part of the program. They are the closed
  forms of the derivatives of the radial density, which the proof of the bound on
  \<open>radialDensity\<close> differentiates.\<close>

text \<open>First and second derivative of \<open>laguerre_spec k x i\<close> in \<open>x\<close>, by differentiating
  the recurrence.\<close>

fun laguerre_d :: "real \<Rightarrow> real \<Rightarrow> nat \<Rightarrow> real" where
  "laguerre_d k x 0 = 0"
| "laguerre_d k x (Suc 0) = - 1"
| "laguerre_d k x (Suc (Suc i)) =
     (- laguerre_spec k x (Suc i)
      + (2 * real (Suc (Suc i)) - 1 + k - x) * laguerre_d k x (Suc i)
      - (real (Suc (Suc i)) - 1 + k) * laguerre_d k x i) / real (Suc (Suc i))"

fun laguerre_dd :: "real \<Rightarrow> real \<Rightarrow> nat \<Rightarrow> real" where
  "laguerre_dd k x 0 = 0"
| "laguerre_dd k x (Suc 0) = 0"
| "laguerre_dd k x (Suc (Suc i)) =
     (- 2 * laguerre_d k x (Suc i)
      + (2 * real (Suc (Suc i)) - 1 + k - x) * laguerre_dd k x (Suc i)
      - (real (Suc (Suc i)) - 1 + k) * laguerre_dd k x i) / real (Suc (Suc i))"

text \<open>With \<open>q = n - l - 1\<close>, the density is \<open>(ru l q)\<^sup>2\<close> where
  \<open>ru l q x = x\<^bsup>l+1\<^esup> L\<^sub>q\<^bsup>2l+1\<^esup>(x) e\<^bsup>-x/2\<^esup>\<close>; \<open>rf\<close> is its polynomial factor, and
  \<open>rf1\<close>, \<open>rf2\<close>, \<open>ru1\<close>, \<open>ru2\<close> are the derivatives.\<close>

definition rf :: "nat \<Rightarrow> nat \<Rightarrow> real \<Rightarrow> real" where
  "rf l q x = x ^ Suc l * laguerre_spec (2 * real l + 1) x q"

definition rf1 :: "nat \<Rightarrow> nat \<Rightarrow> real \<Rightarrow> real" where
  "rf1 l q x = real (Suc l) * x ^ l * laguerre_spec (2 * real l + 1) x q
               + x ^ Suc l * laguerre_d (2 * real l + 1) x q"

definition rf2 :: "nat \<Rightarrow> nat \<Rightarrow> real \<Rightarrow> real" where
  "rf2 l q x = real (Suc l) * (real l * x ^ (l - 1)) * laguerre_spec (2 * real l + 1) x q
               + 2 * (real (Suc l) * x ^ l * laguerre_d (2 * real l + 1) x q)
               + x ^ Suc l * laguerre_dd (2 * real l + 1) x q"

definition ru :: "nat \<Rightarrow> nat \<Rightarrow> real \<Rightarrow> real" where
  "ru l q x = rf l q x * exp (- x / 2)"

definition ru1 :: "nat \<Rightarrow> nat \<Rightarrow> real \<Rightarrow> real" where
  "ru1 l q x = (rf1 l q x - rf l q x / 2) * exp (- x / 2)"

definition ru2 :: "nat \<Rightarrow> nat \<Rightarrow> real \<Rightarrow> real" where
  "ru2 l q x = (rf2 l q x - rf1 l q x + rf l q x / 4) * exp (- x / 2)"

text \<open>The coefficient of the radial equation \<open>x\<^sup>2 u'' = - Q u\<close>.\<close>

definition rQ :: "nat \<Rightarrow> nat \<Rightarrow> real \<Rightarrow> real" where
  "rQ l q x = (real q + real l + 1) * x - x * x / 4 - real l * (real l + 1)"

text \<open>The density as a function of \<open>x\<close>, and its first two derivatives.\<close>

definition rP :: "nat \<Rightarrow> nat \<Rightarrow> real \<Rightarrow> real" where
  "rP l q x = ru l q x * ru l q x"

definition rP1 :: "nat \<Rightarrow> nat \<Rightarrow> real \<Rightarrow> real" where
  "rP1 l q x = 2 * (ru l q x * ru1 l q x)"

definition rP2 :: "nat \<Rightarrow> nat \<Rightarrow> real \<Rightarrow> real" where
  "rP2 l q x = 2 * (ru1 l q x * ru1 l q x) + 2 * (ru l q x * ru2 l q x)"

text \<open>For \<open>l = 0\<close> the function \<open>u\<^sup>2 + u'\<^sup>2 \<cdot> 4x / (4n - x)\<close> is nondecreasing on
  \<open>(0, 4n)\<close>; it equals the density at the critical points of \<open>u\<close>, so the local
  maxima of the density grow with \<open>x\<close>.\<close>

definition sonin :: "nat \<Rightarrow> real \<Rightarrow> real" where
  "sonin q x = ru 0 q x * ru 0 q x
               + ru1 0 q x * ru1 0 q x * (4 * x / (4 * (real q + 1) - x))"

subsection \<open>Properties of the electron configuration\<close>

lemma fill_prefix:
  "map subshellOf (fillSubshells r subs) = take (length (fillSubshells r subs)) subs"
  by (induction subs arbitrary: r) (auto simp: Let_def subshellOf_def)

lemma fill_sum:
  assumes "\<forall>s\<in>set subs. 0 \<le> maxElectrons s"
  shows "sum_list (map electrons (fillSubshells r subs))
         = min (max r 0) (sum_list (map maxElectrons subs))"
  using assms
proof (induction subs arbitrary: r)
  case Nil
  then show ?case by simp
next
  case (Cons s subs)
  have nn: "0 \<le> sum_list (map maxElectrons subs)"
    by (rule sum_list_nonneg) (use Cons.prems in auto)
  show ?case using Cons nn by (auto simp: Let_def min_def max_def)
qed

lemma fill_greedy:
  "i < length (fillSubshells r subs) \<Longrightarrow>
   electrons (fillSubshells r subs ! i)
   = min (r - sum_list (map electrons (take i (fillSubshells r subs))))
         (maxElectrons (subs ! i))"
proof (induction subs arbitrary: r i)
  case Nil
  then show ?case by simp
next
  case (Cons s subs)
  show ?case
  proof (cases i)
    case 0
    with Cons.prems show ?thesis by (auto simp: Let_def split: if_splits)
  next
    case (Suc j)
    with Cons.prems have r: "\<not> r \<le> 0" by (auto split: if_splits)
    with Cons.prems Suc have "j < length (fillSubshells (r - min r (maxElectrons s)) subs)"
      by (simp add: Let_def)
    from Cons.IH[OF this] show ?thesis using r Suc by (simp add: Let_def algebra_simps)
  qed
qed

lemma fill_cap: "f \<in> set (fillSubshells r subs) \<Longrightarrow> electrons f \<le> maxElectrons f"
  by (induction subs arbitrary: r) (auto simp: Let_def split: if_splits)

lemma fill_maxElectrons:
  "i < length (fillSubshells r subs) \<Longrightarrow>
   maxElectrons (fillSubshells r subs ! i) = maxElectrons (subs ! i)
   \<and> sub_l (fillSubshells r subs ! i) = sub_l (subs ! i)"
proof -
  assume i: "i < length (fillSubshells r subs)"
  then have "subshellOf (fillSubshells r subs ! i) = take (length (fillSubshells r subs)) subs ! i"
    by (metis fill_prefix nth_map)
  with i have eq: "subshellOf (fillSubshells r subs ! i) = subs ! i"
    by simp
  have "maxElectrons (subshellOf (fillSubshells r subs ! i)) = maxElectrons (subs ! i)"
    and "sub_l (subshellOf (fillSubshells r subs ! i)) = sub_l (subs ! i)"
    by (simp_all only: eq)
  then show ?thesis by (simp add: subshellOf_def)
qed

lemma AUFBAU_labels:
  "map sub_label AUFBAU_ORDER =
   [''1s'', ''2s'', ''2p'', ''3s'', ''3p'', ''4s'', ''3d'', ''4p'', ''5s'', ''4d'',
    ''5p'', ''6s'', ''4f'', ''5d'', ''6p'', ''7s'', ''5f'', ''6d'', ''7p'']"
  by code_simp

lemma AUFBAU_capacity: "\<forall>s\<in>set AUFBAU_ORDER. maxElectrons s = 2 * (2 * sub_l s + 1)"
  by (auto simp: AUFBAU_ORDER_def)

lemma AUFBAU_capacities:
  "map maxElectrons AUFBAU_ORDER = [2, 2, 6, 2, 6, 2, 10, 6, 2, 10, 6, 2, 14, 10, 6, 2, 14, 10, 6]"
  by (simp add: AUFBAU_ORDER_def AUFBAU_PAIRS_def)

lemma AUFBAU_total: "sum_list (map maxElectrons AUFBAU_ORDER) = 118"
  by (simp add: AUFBAU_capacities)

lemma AUFBAU_nonneg: "\<forall>s\<in>set AUFBAU_ORDER. 0 \<le> maxElectrons s"
  by (auto simp: AUFBAU_ORDER_def AUFBAU_PAIRS_def)

lemma config_sum: "sum_list (map electrons (getElectronConfiguration Z)) = min (max Z 0) 118"
  unfolding getElectronConfiguration_def
  by (simp add: fill_sum[OF AUFBAU_nonneg] AUFBAU_total)

text \<open>
  Claim C1. For every atomic number \<open>Z\<close> with \<open>1 \<le> Z \<le> 36\<close> the configuration lists
  the subshells of the Aufbau order 1s, 2s, 2p, 3s, 3p, 4s, 3d, 4p, 5s, 4d, 5p, 6s, 4f,
  5d, 6p, 7s, 5f, 6d, 7p, as a prefix of it; the subshell at each position holds
  \<open>min(remaining, 2(2l+1))\<close> electrons, where \<open>remaining\<close> is \<open>Z\<close> minus the electrons
  of the subshells before it; the electrons sum to \<open>Z\<close>; and no subshell holds more than
  its capacity \<open>2(2l+1)\<close>.
\<close>

theorem getElectronConfiguration_aufbau:
  assumes "1 \<le> Z" and "Z \<le> 36"
  shows "map sub_label AUFBAU_ORDER =
           [''1s'', ''2s'', ''2p'', ''3s'', ''3p'', ''4s'', ''3d'', ''4p'', ''5s'', ''4d'',
            ''5p'', ''6s'', ''4f'', ''5d'', ''6p'', ''7s'', ''5f'', ''6d'', ''7p'']
       \<and> map (\<lambda>s. (sub_n s, sub_l s)) AUFBAU_ORDER = AUFBAU_PAIRS
       \<and> map subshellOf (getElectronConfiguration Z)
           = take (length (getElectronConfiguration Z)) AUFBAU_ORDER
       \<and> (\<forall>i < length (getElectronConfiguration Z).
             electrons (getElectronConfiguration Z ! i)
             = min (Z - sum_list (map electrons (take i (getElectronConfiguration Z))))
                   (2 * (2 * sub_l (getElectronConfiguration Z ! i) + 1)))
       \<and> sum_list (map electrons (getElectronConfiguration Z)) = Z
       \<and> (\<forall>s \<in> set (getElectronConfiguration Z). electrons s \<le> 2 * (2 * sub_l s + 1))"
proof (intro conjI allI impI ballI)
  show "map sub_label AUFBAU_ORDER =
           [''1s'', ''2s'', ''2p'', ''3s'', ''3p'', ''4s'', ''3d'', ''4p'', ''5s'', ''4d'',
            ''5p'', ''6s'', ''4f'', ''5d'', ''6p'', ''7s'', ''5f'', ''6d'', ''7p'']"
    by (rule AUFBAU_labels)
  show "map (\<lambda>s. (sub_n s, sub_l s)) AUFBAU_ORDER = AUFBAU_PAIRS"
    by (simp add: AUFBAU_ORDER_def AUFBAU_PAIRS_def)
  show "map subshellOf (getElectronConfiguration Z)
           = take (length (getElectronConfiguration Z)) AUFBAU_ORDER"
    unfolding getElectronConfiguration_def by (rule fill_prefix)
  show "sum_list (map electrons (getElectronConfiguration Z)) = Z"
    using assms by (simp add: config_sum)
next
  fix i assume i: "i < length (getElectronConfiguration Z)"
  then have iA: "i < length AUFBAU_ORDER"
    using fill_prefix[of Z AUFBAU_ORDER]
    by (metis getElectronConfiguration_def length_map length_take min.strict_boundedE)
  have "maxElectrons (AUFBAU_ORDER ! i) = 2 * (2 * sub_l (AUFBAU_ORDER ! i) + 1)"
    using AUFBAU_capacity iA by simp
  then show "electrons (getElectronConfiguration Z ! i)
             = min (Z - sum_list (map electrons (take i (getElectronConfiguration Z))))
                   (2 * (2 * sub_l (getElectronConfiguration Z ! i) + 1))"
    using i fill_greedy[of i Z AUFBAU_ORDER] fill_maxElectrons[of i Z AUFBAU_ORDER]
    by (simp add: getElectronConfiguration_def)
next
  fix s assume s: "s \<in> set (getElectronConfiguration Z)"
  then obtain i where i: "i < length (getElectronConfiguration Z)"
    and si: "s = getElectronConfiguration Z ! i"
    by (auto simp: in_set_conv_nth)
  then have iA: "i < length AUFBAU_ORDER"
    using fill_prefix[of Z AUFBAU_ORDER]
    by (metis getElectronConfiguration_def length_map length_take min.strict_boundedE)
  have "maxElectrons (AUFBAU_ORDER ! i) = 2 * (2 * sub_l (AUFBAU_ORDER ! i) + 1)"
    using AUFBAU_capacity iA by simp
  then have "maxElectrons s = 2 * (2 * sub_l s + 1)"
    using i si fill_maxElectrons[of i Z AUFBAU_ORDER] by (simp add: getElectronConfiguration_def)
  then show "electrons s \<le> 2 * (2 * sub_l s + 1)"
    using fill_cap[of s Z AUFBAU_ORDER] s by (simp add: getElectronConfiguration_def)
qed

theorem getElectronConfiguration_aufbau_witness:
  "(1::int) \<le> 26 \<and> (26::int) \<le> 36
   \<and> map sub_label (getElectronConfiguration 26)
       = [''1s'', ''2s'', ''2p'', ''3s'', ''3p'', ''4s'', ''3d'']
   \<and> map electrons (getElectronConfiguration 26) = [2, 2, 6, 2, 6, 2, 6]
   \<and> sum_list (map electrons (getElectronConfiguration 26)) = 26
   \<and> list_all (\<lambda>s. electrons s \<le> 2 * (2 * sub_l s + 1)) (getElectronConfiguration 26)"
proof -
  have l: "map sub_label (getElectronConfiguration 26)
             = [''1s'', ''2s'', ''2p'', ''3s'', ''3p'', ''4s'', ''3d'']"
    by code_simp
  have e: "map electrons (getElectronConfiguration 26) = [2, 2, 6, 2, 6, 2, 6]"
    by code_simp
  show ?thesis
    using getElectronConfiguration_aufbau[of 26] l e by (simp add: list_all_iff)
qed

text \<open>
  Claim C10. getElectronConfiguration is total on the integers: for \<open>Z \<le> 0\<close> it returns
  the empty configuration, and for \<open>Z > 0\<close> the assigned electrons sum to \<open>min(Z, 118)\<close>,
  where 118 is the total capacity of the 19 subshells of the Aufbau table; electrons
  above 118 are dropped.
\<close>

theorem getElectronConfiguration_total:
  "(Z \<le> 0 \<longrightarrow> getElectronConfiguration Z = [])
   \<and> (0 < Z \<longrightarrow> sum_list (map electrons (getElectronConfiguration Z)) = min Z 118)
   \<and> length AUFBAU_ORDER = 19
   \<and> sum_list (map maxElectrons AUFBAU_ORDER) = 118"
proof (intro conjI impI)
  assume "Z \<le> 0"
  then show "getElectronConfiguration Z = []"
    by (simp add: getElectronConfiguration_def AUFBAU_ORDER_def AUFBAU_PAIRS_def)
next
  assume "0 < Z"
  then show "sum_list (map electrons (getElectronConfiguration Z)) = min Z 118"
    by (simp add: config_sum)
next
  show "length AUFBAU_ORDER = 19" by (simp add: AUFBAU_ORDER_def AUFBAU_PAIRS_def)
  show "sum_list (map maxElectrons AUFBAU_ORDER) = 118" by (rule AUFBAU_total)
qed

theorem getElectronConfiguration_total_witness:
  "(-3::int) \<le> 0 \<and> getElectronConfiguration (-3) = []
   \<and> (0::int) < 120 \<and> sum_list (map electrons (getElectronConfiguration 120)) = 118"
  using getElectronConfiguration_total[of "-3"] getElectronConfiguration_total[of 120]
  by simp


subsection \<open>The heatmap ramp\<close>

lemma heat_ramp_body:
  "(if u < 0.25 then (0.15 + u / 0.25 * 0.55, 0.0 + u / 0.25 * 0.0, 0.3 + u / 0.25 * 0.4)
    else if u < 0.5 then
      (0.7 + (u - 0.25) / 0.25 * 0.3, 0.0 + (u - 0.25) / 0.25 * 0.45, 0.7 - (u - 0.25) / 0.25 * 0.6)
    else if u < 0.75 then (1.0, 0.45 + (u - 0.5) / 0.25 * 0.45, 0.1 - (u - 0.5) / 0.25 * 0.05)
    else (1.0, 0.9 + (u - 0.75) / 0.25 * 0.1, 0.05 + (u - 0.75) / 0.25 * 0.95))
   = heat_ramp_spec (u::real)"
  unfolding heat_ramp_spec_def lerp_color_def
  by (auto simp: field_simps)

lemma heat_refines: "densityToHeatmap t = heat_ramp_spec (max 0 (min 1 t))"
  unfolding densityToHeatmap_def Let_def by (rule heat_ramp_body)

text \<open>
  Claim C5. densityToHeatmap is a function of its argument alone; it clamps the argument
  to \<open>[0, 1]\<close> and applies the four-segment piecewise-linear ramp with breakpoints at
  0.25, 0.5 and 0.75. At 0 it returns the deep purple stop \<open>(0.15, 0, 0.3)\<close>, at 1
  white \<open>(1, 1, 1)\<close>, and outside \<open>[0, 1]\<close> the value at the nearer endpoint.
\<close>

theorem densityToHeatmap_ramp:
  "densityToHeatmap t = heat_ramp_spec (max 0 (min 1 t))
   \<and> densityToHeatmap 0 = (0.15, 0, 0.3)
   \<and> densityToHeatmap 1 = (1, 1, 1)
   \<and> (t < 0 \<longrightarrow> densityToHeatmap t = densityToHeatmap 0)
   \<and> (1 < t \<longrightarrow> densityToHeatmap t = densityToHeatmap 1)"
proof (intro conjI impI)
  show "densityToHeatmap t = heat_ramp_spec (max 0 (min 1 t))" by (rule heat_refines)
  show "densityToHeatmap 0 = (0.15, 0, 0.3)" by (simp add: densityToHeatmap_def)
  show "densityToHeatmap 1 = (1, 1, 1)" by (simp add: densityToHeatmap_def)
next
  assume "t < 0"
  then have "max 0 (min 1 t) = max 0 (min 1 (0::real))" by simp
  then show "densityToHeatmap t = densityToHeatmap 0" by (simp only: heat_refines)
next
  assume "1 < t"
  then have "max 0 (min 1 t) = max 0 (min 1 (1::real))" by simp
  then show "densityToHeatmap t = densityToHeatmap 1" by (simp only: heat_refines)
qed

theorem densityToHeatmap_ramp_witness:
  "(-2::real) < 0 \<and> densityToHeatmap (-2) = (0.15, 0, 0.3)
   \<and> (1::real) < 3 \<and> densityToHeatmap 3 = (1, 1, 1)"
  using densityToHeatmap_ramp[of "-2"] densityToHeatmap_ramp[of 3]
  by (simp add: heat_ramp_spec_def lerp_color_def)


subsection \<open>The radial density and the Laguerre recurrence\<close>

lemma laguerre_loop_spec:
  "2 \<le> i \<Longrightarrow> i \<le> p + 1 \<Longrightarrow>
   laguerre_loop i p k x (laguerre_spec k x (nat (i - 2))) (laguerre_spec k x (nat (i - 1)))
   = laguerre_spec k x (nat p)"
proof (induction "nat (p + 1 - i)" arbitrary: i)
  case 0
  then have "i = p + 1" by simp
  then show ?case by (simp add: laguerre_loop.simps[of "p + 1"])
next
  case (Suc m)
  then have le: "i \<le> p" by simp
  have m: "m = nat (p + 1 - (i + 1))" using Suc.hyps(2) by simp
  obtain j where j: "nat (i - 2) = j" by simp
  with Suc.prems have i: "i = int j + 2" by simp
  have s: "nat (i - 1) = Suc j" "nat i = Suc (Suc j)" "nat (i + 1 - 2) = Suc j" "nat (i + 1 - 1) = Suc (Suc j)" using i by simp_all
  have ri: "real_of_int i = real (Suc (Suc j))" using i by simp
  have "laguerre_loop (i + 1) p k x (laguerre_spec k x (nat (i + 1 - 2))) (laguerre_spec k x (nat (i + 1 - 1)))
   = laguerre_spec k x (nat p)"
    using Suc.hyps(1)[OF m] Suc.prems le by simp
  then show ?case
    unfolding laguerre_loop.simps[of i] using le
    by (simp only: s j ri Let_def laguerre_spec.simps if_True)
qed

lemma laguerreL_spec: "0 \<le> p \<Longrightarrow> laguerreL p k x = laguerre_spec k x (nat p)"
proof -
  assume p: "0 \<le> p"
  consider "p = 0" | "p = 1" | "2 \<le> p" using p by linarith
  then show ?thesis
  proof cases
    case 3
    then show ?thesis using laguerre_loop_spec[of 2 p k x] by (simp add: laguerreL_def)
  qed (simp_all add: laguerreL_def)
qed

text \<open>
  Claim C2. For \<open>n \<ge> 1\<close>, \<open>0 \<le> l \<le> n - 1\<close> and \<open>\<rho> \<ge> 0\<close>,
  \<open>radialProbability n l \<rho> = \<rho>\<^sup>2 (\<rho>\<^sup>l L(\<rho>))\<^sup>2 e\<^bsup>-\<rho>\<^esup>\<close>, where \<open>L\<close> is the
  generalized Laguerre polynomial of degree \<open>n - l - 1\<close> and order \<open>2l + 1\<close> of the
  three-term recurrence.
\<close>

theorem radialProbability_formula:
  assumes "1 \<le> n" and "0 \<le> l" and "l \<le> n - 1" and "0 \<le> rho"
  shows "radialProbability n l rho
         = rho\<^sup>2 * (rho ^ nat l * laguerre_spec (2 * real_of_int l + 1) rho (nat (n - l - 1)))\<^sup>2
           * exp (- rho)"
proof -
  have e: "exp (- rho / 2) * exp (- rho / 2) = exp (- rho)"
    by (simp add: exp_add[symmetric])
  have p: "rho powi l = rho ^ nat l" using assms by (simp add: power_int_def)
  have "radialProbability n l rho
        = rho * rho * (rho ^ nat l * laguerre_spec (2 * real_of_int l + 1) rho (nat (n - l - 1)))\<^sup>2
          * (exp (- rho / 2) * exp (- rho / 2))"
    using assms by (simp add: radialProbability_def Let_def laguerreL_spec p power2_eq_square algebra_simps)
  then show ?thesis by (simp only: e power2_eq_square)
qed

theorem radialProbability_formula_witness:
  "(1::int) \<le> 2 \<and> (0::int) \<le> 0 \<and> (0::int) \<le> 2 - 1 \<and> (0::real) \<le> 2
   \<and> radialProbability 2 0 2 = 0"
  using radialProbability_formula[of 2 0 2] by (simp add: eval_nat_numeral)


subsection \<open>Bond offsets\<close>

lemma dot_cross_self: "dot (crossVectors d p) d = 0"
  by (cases d; cases p) (simp add: dot_def crossVectors_def algebra_simps)

lemma dot_multiplyScalar: "dot (multiplyScalar a s) d = s * dot a d"
  by (cases a; cases d) (simp add: dot_def multiplyScalar_def algebra_simps)

lemma dot_normalize: "dot (normalize a) d = dot a d / (if vlength a = 0 then 1 else vlength a)"
  by (cases a; cases d) (simp add: dot_def normalize_def Let_def add_divide_distrib)

lemma dot_negate: "dot (negate a) d = - dot a d"
  by (cases a; cases d) (simp add: dot_def negate_def)

lemma dot_zero: "dot (0, 0, 0) d = 0"
  by (cases d) (simp add: dot_def)

lemma offset_perp: "dot (multiplyScalar (normalize (crossVectors d p)) s) d = 0"
  by (simp add: dot_multiplyScalar dot_normalize dot_cross_self)

lemma bondOffsets_perp: "o' \<in> set (bondOffsets d len order) \<Longrightarrow> dot o' d = 0"
  by (auto simp: bondOffsets_def Let_def dot_zero dot_negate offset_perp split: if_splits)

lemma vlength_nonneg: "0 \<le> vlength a"
  by (cases a) (simp add: vlength_def)

lemma vlength_zero_iff: "vlength a = 0 \<longleftrightarrow> a = (0, 0, 0)"
proof (cases a)
  case (fields x y z)
  have "x * x + y * y + z * z = 0 \<longleftrightarrow> x = 0 \<and> y = 0 \<and> z = 0"
    using sum_squares_eq_zero_iff[of x y] 
    by (smt (verit) mult_nonneg_nonneg mult_nonpos_nonpos zero_le_mult_iff mult_eq_0_iff zero_le_square)
  then show ?thesis using fields by (simp add: vlength_def)
qed

lemma vlength_normalize: "a \<noteq> (0, 0, 0) \<Longrightarrow> vlength (normalize a) = 1"
proof (cases a)
  case (fields x y z)
  assume nz: "a \<noteq> (0, 0, 0)"
  then have l: "vlength a \<noteq> 0" by (simp add: vlength_zero_iff)
  have pos: "0 < vlength a" using l vlength_nonneg[of a] by linarith
  have sq: "vlength a * vlength a = x * x + y * y + z * z"
    using fields by (simp add: vlength_def)
  have "x / vlength a * (x / vlength a) + y / vlength a * (y / vlength a) + z / vlength a * (z / vlength a)
        = (x * x + y * y + z * z) / (vlength a * vlength a)"
    by (simp add: add_divide_distrib)
  also have "\<dots> = 1" using sq[symmetric] l by simp
  finally show ?thesis using fields l by (simp add: normalize_def Let_def vlength_def[of "(_, _, _)"])
qed

lemma vlength_multiplyScalar: "vlength (multiplyScalar a s) = \<bar>s\<bar> * vlength a"
proof (cases a)
  case (fields x y z)
  have "x * s * (x * s) + y * s * (y * s) + z * s * (z * s) = (s * s) * (x * x + y * y + z * z)"
    by (simp add: algebra_simps)
  then show ?thesis using fields
    by (simp add: multiplyScalar_def vlength_def real_sqrt_mult)
qed

lemma cross_nonzero:
  assumes "d \<noteq> (0, 0, 0)"
  shows "crossVectors d (if \<bar>dot d (0, 1, 0)\<bar> / vlength d > 0.9 then (1, 0, 0) else (0, 1, 0)) \<noteq> (0, 0, 0)"
proof (cases d)
  case (fields x y z)
  have pos: "0 < vlength d" using assms vlength_zero_iff[of d] vlength_nonneg[of d] by linarith
  show ?thesis
  proof (cases "\<bar>dot d (0, 1, 0)\<bar> / vlength d > 0.9")
    case True
    then have "\<bar>dot d (0, 1, 0)\<bar> / vlength d > 0" by linarith
    moreover have "dot d (0, 1, 0) = y" using fields by (simp add: dot_def)
    ultimately have "y \<noteq> 0" by auto
    then show ?thesis using True fields by (simp add: crossVectors_def)
  next
    case False
    have "\<not> (x = 0 \<and> z = 0)"
    proof
      assume xz: "x = 0 \<and> z = 0"
      then have "vlength d = \<bar>y\<bar>" using fields by (simp add: vlength_def)
      then have "\<bar>dot d (0, 1, 0)\<bar> / vlength d = 1" using fields pos by (simp add: dot_def)
      with False show False by simp
    qed
    then show ?thesis using False fields by (auto simp: crossVectors_def)
  qed
qed

lemma cyl_positions:
  assumes "\<forall>x. \<not> bm_glow (A x)" and "\<forall>x. bm_glow (B x)"
  shows "map bm_position (filter (\<lambda>m. \<not> bm_glow m) (concat (map (\<lambda>off. [A off, B off]) xs)))
         = map (\<lambda>x. bm_position (A x)) xs"
  by (induction xs) (auto simp: assms)

text \<open>
  Claim C7. For distinct endpoints, with \<open>dir\<close> the vector from the first to the second
  and \<open>len\<close> its length, buildBondCylinder computes exactly one offset, the zero
  vector, for order 1; exactly two offsets \<open>v\<close> and \<open>-v\<close> for order 2; exactly three
  offsets, the zero vector, \<open>v\<close> and \<open>-v\<close>, for order 3; and every offset is
  perpendicular to the bond axis: its dot product with \<open>dir\<close> is 0. (In addition \<open>v\<close>
  has length 0.15 for order 2 and 0.2 for order 3, and the cylinders are placed at the
  midpoint plus the offsets.)
\<close>

theorem buildBondCylinder_offsets:
  assumes "posA \<noteq> posB"
  shows "bondOffsets (subVectors posB posA) (vlength (subVectors posB posA)) 1 = [(0, 0, 0)]
       \<and> (\<exists>v. bondOffsets (subVectors posB posA) (vlength (subVectors posB posA)) 2 = [v, negate v]
              \<and> vlength v = 0.15)
       \<and> (\<exists>v. bondOffsets (subVectors posB posA) (vlength (subVectors posB posA)) 3
                = [(0, 0, 0), v, negate v] \<and> vlength v = 0.2)
       \<and> (\<forall>order. \<forall>off \<in> set (bondOffsets (subVectors posB posA)
                                      (vlength (subVectors posB posA)) order).
             dot off (subVectors posB posA) = 0)
       \<and> (\<forall>order ty. map bm_position (filter (\<lambda>m. \<not> bm_glow m) (buildBondCylinder posA posB order ty))
             = map (addVectors (multiplyScalar (addVectors posA posB) 0.5))
                   (bondOffsets (subVectors posB posA) (vlength (subVectors posB posA)) order))"
proof -
  define d where "d = subVectors posB posA"
  have dnz: "d \<noteq> (0, 0, 0)"
    using assms unfolding d_def by (cases posA; cases posB) (auto simp: subVectors_def)
  define p where "p = (if \<bar>dot d (0, 1, 0)\<bar> / vlength d > 0.9 then (1::real, 0::real, 0::real) else (0, 1, 0))"
  have c: "crossVectors d p \<noteq> (0, 0, 0)" unfolding p_def by (rule cross_nonzero[OF dnz])
  have n: "vlength (normalize (crossVectors d p)) = 1" by (rule vlength_normalize[OF c])
  have 1: "bondOffsets d (vlength d) 1 = [(0, 0, 0)]" by (simp add: bondOffsets_def)
  have 2: "bondOffsets d (vlength d) 2
           = [multiplyScalar (normalize (crossVectors d p)) 0.15,
              negate (multiplyScalar (normalize (crossVectors d p)) 0.15)]"
    by (simp add: bondOffsets_def Let_def p_def)
  have 3: "bondOffsets d (vlength d) 3
           = [(0, 0, 0), multiplyScalar (normalize (crossVectors d p)) 0.2,
              negate (multiplyScalar (normalize (crossVectors d p)) 0.2)]"
    by (simp add: bondOffsets_def Let_def p_def)
  have v2: "vlength (multiplyScalar (normalize (crossVectors d p)) 0.15) = 0.15"
    by (simp add: vlength_multiplyScalar n)
  have v3: "vlength (multiplyScalar (normalize (crossVectors d p)) 0.2) = 0.2"
    by (simp add: vlength_multiplyScalar n)
  have perp: "\<forall>order. \<forall>off \<in> set (bondOffsets d (vlength d) order). dot off d = 0"
    using bondOffsets_perp by blast
  have cyl: "\<forall>order ty. map bm_position (filter (\<lambda>m. \<not> bm_glow m) (buildBondCylinder posA posB order ty))
             = map (addVectors (multiplyScalar (addVectors posA posB) 0.5))
                   (bondOffsets d (vlength d) order)"
  proof (intro allI)
    fix order ty
    show "map bm_position (filter (\<lambda>m. \<not> bm_glow m) (buildBondCylinder posA posB order ty))
             = map (addVectors (multiplyScalar (addVectors posA posB) 0.5))
                   (bondOffsets d (vlength d) order)"
      unfolding buildBondCylinder_def Let_def d_def[symmetric]
      by (subst cyl_positions) simp_all
  qed
  show ?thesis
    unfolding d_def[symmetric] using 1 2 3 v2 v3 perp cyl by blast
qed

theorem buildBondCylinder_offsets_witness:
  "((-2, 0, 0) :: vec3) \<noteq> (2, 0, 0)
   \<and> bondOffsets (subVectors (2, 0, 0) (-2, 0, 0)) (vlength (subVectors (2, 0, 0) (-2, 0, 0))) 1
       = [(0, 0, 0)]
   \<and> (\<exists>v. bondOffsets (subVectors (2, 0, 0) (-2, 0, 0))
              (vlength (subVectors (2, 0, 0) (-2, 0, 0))) 2 = [v, negate v] \<and> vlength v = 0.15)
   \<and> (\<exists>v. bondOffsets (subVectors (2, 0, 0) (-2, 0, 0))
              (vlength (subVectors (2, 0, 0) (-2, 0, 0))) 3 = [(0, 0, 0), v, negate v]
            \<and> vlength v = 0.2)
   \<and> list_all (\<lambda>off. dot off (subVectors (2, 0, 0) (-2, 0, 0)) = 0)
        (bondOffsets (subVectors (2, 0, 0) (-2, 0, 0))
           (vlength (subVectors (2, 0, 0) (-2, 0, 0))) 3)"
proof -
  have ne: "((-2, 0, 0) :: vec3) \<noteq> (2, 0, 0)" by simp
  show ?thesis
    using buildBondCylinder_offsets[OF ne] ne unfolding list_all_iff by blast
qed


subsection \<open>Animation\<close>

lemma jitter_pass_nth:
  "j < length ps \<Longrightarrow>
   jitter_pass i e s b base ps ! j
   = (if j = i then base ! i * b + sin (e * 2.3 + real i) * (0.03 * s)
      else if j = i + 1 then base ! (i + 1) * b + cos (e * 1.7 + real i) * (0.03 * s)
      else if j = i + 2 then base ! (i + 2) * b + sin (e * 3.1 + real i + 1) * (0.03 * s)
      else ps ! j)"
  by (simp add: jitter_pass_def Let_def nth_list_update)

lemma jitter_loop_length [simp]: "length (jitter_loop i e s b base ps) = length ps"
proof (induction i e s b base ps rule: jitter_loop.induct)
  case (1 i e s b base ps)
  show ?case
    by (subst jitter_loop.simps) (simp add: 1)
qed

lemma jitter_loop_nth:
  "3 dvd i \<Longrightarrow> j < length ps \<Longrightarrow>
   jitter_loop i e s b base ps ! j
   = (if i \<le> j then base ! j * b + 0.03 * s * jitterOf e j else ps ! j)"
proof (induction i e s b base ps rule: jitter_loop.induct)
  case (1 i e s b base ps)
  show ?case
  proof (cases "i < length ps")
    case False
    with 1 show ?thesis by (subst jitter_loop.simps) simp
  next
    case True
    have d: "3 dvd i + 3" using "1.prems" by simp
    have j: "j < length (jitter_pass i e s b base ps)" using "1.prems" by simp
    have im: "i mod 3 = 0" "(i + 1) mod 3 = 1" "(i + 2) mod 3 = 2"
      using "1.prems"(1) by presburger+
    have "jitter_loop i e s b base ps ! j
          = jitter_loop (i + 3) e s b base (jitter_pass i e s b base ps) ! j"
      using True by (subst jitter_loop.simps) simp
    also have "\<dots> = (if i + 3 \<le> j then base ! j * b + 0.03 * s * jitterOf e j
                     else jitter_pass i e s b base ps ! j)"
      by (rule "1.IH"[OF True d j])
    also have "\<dots> = (if i \<le> j then base ! j * b + 0.03 * s * jitterOf e j else ps ! j)"
    proof -
      consider "j < i" | "j = i" | "j = i + 1" | "j = i + 2" | "i + 3 \<le> j" by linarith
      then show ?thesis
      proof cases
        case 1
        then show ?thesis using "1.prems"(2) by (simp add: jitter_pass_nth)
      next
        case 2
        then show ?thesis using "1.prems"(2) im by (simp add: jitter_pass_nth jitterOf_def)
      next
        case 3
        then show ?thesis using "1.prems"(2) im by (simp add: jitter_pass_nth jitterOf_def)
      next
        case 4
        then show ?thesis using "1.prems"(2) im by (simp add: jitter_pass_nth jitterOf_def)
      next
        case 5
        then show ?thesis by simp
      qed
    qed
    finally show ?thesis .
  qed
qed

lemma jitter_loop_map:
  "jitter_loop 0 e s b base ps = map (\<lambda>j. base ! j * b + 0.03 * s * jitterOf e j) [0..<length ps]"
  by (rule nth_equalityI) (simp_all add: jitter_loop_nth)

lemma jitterOf_bound: "\<bar>jitterOf e j\<bar> \<le> 1"
  by (simp add: jitterOf_def)

lemma animateCloud_idem: "animateCloud e st (animateCloud e st c) = animateCloud e st c"
  by (simp add: animateCloud_def Let_def jitter_loop_map)

lemma animateCloud_positions:
  "i < length (positions (c_points c)) \<Longrightarrow>
   positions (c_points (animateCloud e st c)) ! i
   = basePositions c ! i
     * (1 + 0.04 * sin (e * animationSpeed st * 0.8 + real_of_int (c_n c) * 1.3
                        + real_of_int (c_l c) * 0.7))
     + 0.03 * animationSpeed st * jitterOf e i"
  by (simp add: animateCloud_def Let_def jitter_loop_map)

text \<open>
  Claim C9. For every cloud of the scene (one whose base buffer has the length of its
  position buffer, as every cloud the assembler builds has) and every buffer index \<open>i\<close>,
  one frame of animate at elapsed time \<open>t\<close> and speed factor \<open>s\<close> sets
  \<open>position[i] = basePosition[i] (1 + 0.04 sin(phase)) + jitter\<close>, where
  \<open>phase = t s 0.8 + n 1.3 + l 0.7\<close> and \<open>jitter = 0.03 s jitterOf(t, i)\<close> with
  \<open>|jitterOf(t, i)| \<le> 1\<close> a function of the elapsed time and the index only. The base
  positions are not changed, and a second frame at the same elapsed time leaves every
  cloud as the first frame left it.
\<close>

theorem animate_positions:
  assumes "m < length (orbitalClouds w)"
    and "length (basePositions (orbitalClouds w ! m))
         = length (positions (c_points (orbitalClouds w ! m)))"
    and "i < length (positions (c_points (orbitalClouds w ! m)))"
  shows "positions (c_points (orbitalClouds (animate elapsed delta st w) ! m)) ! i
         = basePositions (orbitalClouds w ! m) ! i
           * (1 + 0.04 * sin (elapsed * animationSpeed st * 0.8
                              + real_of_int (c_n (orbitalClouds w ! m)) * 1.3
                              + real_of_int (c_l (orbitalClouds w ! m)) * 0.7))
           + 0.03 * animationSpeed st * jitterOf elapsed i
       \<and> \<bar>jitterOf elapsed i\<bar> \<le> 1
       \<and> basePositions (orbitalClouds (animate elapsed delta st w) ! m)
           = basePositions (orbitalClouds w ! m)
       \<and> length (positions (c_points (orbitalClouds (animate elapsed delta st w) ! m)))
           = length (positions (c_points (orbitalClouds w ! m)))
       \<and> orbitalClouds (animate elapsed delta' st (animate elapsed delta st w))
           = orbitalClouds (animate elapsed delta st w)"
  using assms
  by (simp add: animate_def animateCloud_positions jitterOf_bound animateCloud_idem)
     (simp add: animateCloud_def Let_def)


theorem animate_positions_witness:
  "(0::nat) < length (orbitalClouds demo_world)
   \<and> positions (c_points (orbitalClouds (animate 0 0 initial_state demo_world) ! 0)) ! 0
       = 1 + 0.04 * sin 1.3
   \<and> basePositions (orbitalClouds (animate 0 0 initial_state demo_world) ! 0) = [1, 2, 3]
   \<and> orbitalClouds (animate 0 1 initial_state (animate 0 0 initial_state demo_world))
       = orbitalClouds (animate 0 0 initial_state demo_world)"
  using animate_positions[of 0 demo_world 0 0 0 initial_state 1]
  by (simp add: demo_world_def demo_cloud_def empty_world_def initial_state_def jitterOf_def)


subsection \<open>The electron-to-orbital distribution\<close>

lemma js_round_nonneg: "0 \<le> x \<Longrightarrow> 0 \<le> js_round x"
  by (simp add: js_round_def)

lemma buildOrbitalCloud_ok:
  assumes "0 \<le> e" and "0 \<le> dm"
  shows "\<exists>pts base k'. buildOrbitalCloud n l ml e dm rnd k = Inr ((pts, base), k')
           \<and> userData pts = OrbitalCloud (show_nat (nat n) @ SUBSHELL_LABELS ! nat l) n l ml e"
proof -
  have "0 \<le> js_round (real_of_int e * 5000 * dm)"
    using assms by (intro js_round_nonneg) simp
  then show ?thesis
    by (auto simp: buildOrbitalCloud_def Let_def split: prod.splits)
qed

lemma atomOrbital_ok:
  assumes "0 \<le> e" and "0 \<le> dm"
  shows "\<exists>c k'. atomOrbital sub h dm ml e w rnd k = Inr (addCloud w c, k')
           \<and> cloudTag c = (sub_n sub, sub_l sub, ml, e)"
proof -
  obtain pts base k' where b: "buildOrbitalCloud (sub_n sub) (sub_l sub) ml e dm rnd k = Inr ((pts, base), k')"
    and u: "ud_electronCount (userData pts) = e"
    using buildOrbitalCloud_ok[OF assms, of "sub_n sub" "sub_l sub" ml rnd k] by force
  show ?thesis using b u by (auto simp: atomOrbital_def Let_def cloudTag_def)
qed

lemma molOrbital_ok:
  assumes "0 \<le> e" and "0 \<le> cloudDensity st"
  shows "\<exists>c k'. molOrbital st off sub ml e w rnd k = Inr (addCloud w c, k')
           \<and> cloudTag c = (sub_n sub, sub_l sub, ml, e)"
proof -
  have dm: "0 \<le> cloudDensity st * 0.4" using assms by simp
  obtain pts base k' where b: "buildOrbitalCloud (sub_n sub) (sub_l sub) ml e (cloudDensity st * 0.4) rnd k = Inr ((pts, base), k')"
    and u: "ud_electronCount (userData pts) = e"
    using buildOrbitalCloud_ok[OF assms(1) dm, of "sub_n sub" "sub_l sub" ml rnd k] by force
  show ?thesis using b u by (auto simp: molOrbital_def Let_def cloudTag_def)
qed

lemma atom_orbital_loop_dist:
  "0 \<le> dm \<Longrightarrow> \<exists>new w' k'. atom_orbital_loop sub h dm ml eLeft w rnd k = Inr (w', k')
           \<and> orbitalClouds w' = orbitalClouds w @ new
           \<and> map cloudTag new
             = map (\<lambda>(m, e). (sub_n sub, sub_l sub, m, e)) (orbital_distribution_from ml (sub_l sub) eLeft)"
proof (induction sub h dm ml eLeft w rnd k rule: atom_orbital_loop.induct)
  case (1 sub h dm ml eLeft w rnd k)
  show ?case
  proof (cases "ml \<le> sub_l sub \<and> 0 < eLeft")
    case False
    then show ?thesis
      by (subst atom_orbital_loop.simps, subst orbital_distribution_from.simps) (auto simp: Let_def)
  next
    case True
    then have e: "0 \<le> min eLeft 2" "\<not> min eLeft 2 \<le> 0" by auto
    obtain c k1 where a: "atomOrbital sub h dm ml (min eLeft 2) w rnd k = Inr (addCloud w c, k1)"
      and t: "cloudTag c = (sub_n sub, sub_l sub, ml, min eLeft 2)"
      using atomOrbital_ok[OF e(1) "1.prems"] by blast
    obtain new w' k' where r: "atom_orbital_loop sub h dm (ml + 1) (eLeft - min eLeft 2) (addCloud w c) rnd k1 = Inr (w', k')"
      and o: "orbitalClouds w' = orbitalClouds (addCloud w c) @ new"
      and m: "map cloudTag new = map (\<lambda>(m, e). (sub_n sub, sub_l sub, m, e))
                 (orbital_distribution_from (ml + 1) (sub_l sub) (eLeft - min eLeft 2))"
      using "1.IH"[OF _ refl e(2) a refl "1.prems"] True by blast
    have "atom_orbital_loop sub h dm ml eLeft w rnd k = Inr (w', k')"
      using True e a r by (subst atom_orbital_loop.simps) (simp add: Let_def)
    moreover have "orbitalClouds w' = orbitalClouds w @ (c # new)"
      using o by (simp add: addCloud_def)
    moreover have "map cloudTag (c # new) = map (\<lambda>(m, e). (sub_n sub, sub_l sub, m, e))
                 (orbital_distribution_from ml (sub_l sub) eLeft)"
      using True t m by (subst orbital_distribution_from.simps) simp
    ultimately show ?thesis by blast
  qed
qed


lemma mol_orbital_loop_dist:
  "0 \<le> cloudDensity st \<Longrightarrow> \<exists>new w' k'. mol_orbital_loop st off sub ml eLeft w rnd k = Inr (w', k')
           \<and> orbitalClouds w' = orbitalClouds w @ new
           \<and> map cloudTag new
             = map (\<lambda>(m, e). (sub_n sub, sub_l sub, m, e)) (orbital_distribution_from ml (sub_l sub) eLeft)"
proof (induction st off sub ml eLeft w rnd k rule: mol_orbital_loop.induct)
  case (1 st off sub ml eLeft w rnd k)
  show ?case
  proof (cases "ml \<le> sub_l sub \<and> 0 < eLeft")
    case False
    then show ?thesis
      by (subst mol_orbital_loop.simps, subst orbital_distribution_from.simps) (auto simp: Let_def)
  next
    case True
    then have e: "0 \<le> min eLeft 2" "\<not> min eLeft 2 \<le> 0" by auto
    obtain c k1 where a: "molOrbital st off sub ml (min eLeft 2) w rnd k = Inr (addCloud w c, k1)"
      and t: "cloudTag c = (sub_n sub, sub_l sub, ml, min eLeft 2)"
      using molOrbital_ok[OF e(1) "1.prems"] by blast
    obtain new w' k' where r: "mol_orbital_loop st off sub (ml + 1) (eLeft - min eLeft 2) (addCloud w c) rnd k1 = Inr (w', k')"
      and o: "orbitalClouds w' = orbitalClouds (addCloud w c) @ new"
      and m: "map cloudTag new = map (\<lambda>(m, e). (sub_n sub, sub_l sub, m, e))
                 (orbital_distribution_from (ml + 1) (sub_l sub) (eLeft - min eLeft 2))"
      using "1.IH"[OF _ refl e(2) a refl "1.prems"] True by blast
    have "mol_orbital_loop st off sub ml eLeft w rnd k = Inr (w', k')"
      using True e a r by (subst mol_orbital_loop.simps) (simp add: Let_def)
    moreover have "orbitalClouds w' = orbitalClouds w @ (c # new)"
      using o by (simp add: addCloud_def)
    moreover have "map cloudTag (c # new) = map (\<lambda>(m, e). (sub_n sub, sub_l sub, m, e))
                 (orbital_distribution_from ml (sub_l sub) eLeft)"
      using True t m by (subst orbital_distribution_from.simps) simp
    ultimately show ?thesis by blast
  qed
qed

lemma dist_counts:
  "list_all (\<lambda>(m, e). ml \<le> m \<and> m \<le> l \<and> 1 \<le> e \<and> e \<le> 2) (orbital_distribution_from ml l r)"
proof (induction ml l r rule: orbital_distribution_from.induct)
  case (1 ml l r)
  show ?case
  proof (cases "ml \<le> l \<and> 0 < r")
    case True
    have "list_all (\<lambda>(m, e). ml + 1 \<le> m \<and> m \<le> l \<and> 1 \<le> e \<and> e \<le> 2)
            (orbital_distribution_from (ml + 1) l (r - min r 2))"
      using 1 True by simp
    then have "list_all (\<lambda>(m, e). ml \<le> m \<and> m \<le> l \<and> 1 \<le> e \<and> e \<le> 2)
            (orbital_distribution_from (ml + 1) l (r - min r 2))"
      by (auto simp: list_all_iff)
    then show ?thesis using True by (subst orbital_distribution_from.simps) simp
  next
    case False
    then show ?thesis by (subst orbital_distribution_from.simps) auto
  qed
qed

lemma dist_mls:
  "map fst (orbital_distribution_from ml l r)
   = map (\<lambda>i. ml + int i) [0..<length (orbital_distribution_from ml l r)]"
proof (induction ml l r rule: orbital_distribution_from.induct)
  case (1 ml l r)
  show ?case
  proof (cases "ml \<le> l \<and> 0 < r")
    case True
    have s: "orbital_distribution_from ml l r
             = (ml, min r 2) # orbital_distribution_from (ml + 1) l (r - min r 2)"
      using True by (subst orbital_distribution_from.simps) simp
    have "map (\<lambda>i. ml + int i) [0..<Suc (length (orbital_distribution_from (ml + 1) l (r - min r 2)))]
          = ml # map (\<lambda>i. ml + 1 + int i) [0..<length (orbital_distribution_from (ml + 1) l (r - min r 2))]"
      by (simp add: upt_conv_Cons map_Suc_upt[symmetric] del: upt_Suc)
    then show ?thesis using "1.IH"[OF True] s by simp
  next
    case False
    then show ?thesis by (subst orbital_distribution_from.simps, subst orbital_distribution_from.simps) auto
  qed
qed

lemma dist_sum:
  "0 \<le> r \<Longrightarrow> ml \<le> l + 1 \<Longrightarrow>
   sum_list (map snd (orbital_distribution_from ml l r)) = min r (2 * (l - ml + 1))"
proof (induction ml l r rule: orbital_distribution_from.induct)
  case (1 ml l r)
  show ?case
  proof (cases "ml \<le> l \<and> 0 < r")
    case True
    have "sum_list (map snd (orbital_distribution_from (ml + 1) l (r - min r 2)))
          = min (r - min r 2) (2 * (l - (ml + 1) + 1))"
      using "1.IH"[OF True] True "1.prems" by simp
    then show ?thesis using True by (subst orbital_distribution_from.simps) auto
  next
    case False
    then show ?thesis using "1.prems" by (subst orbital_distribution_from.simps) auto
  qed
qed

lemma addLabel_clouds [simp]: "orbitalClouds (addLabel w lab) = orbitalClouds w"
  by (simp add: addLabel_def)

lemma atomSubshell_dist:
  assumes "0 \<le> cloudDensity st"
  shows "\<exists>new w' k'. atomSubshell st sub w rnd k = Inr (w', k')
           \<and> orbitalClouds w' = orbitalClouds w @ new
           \<and> map cloudTag new
             = map (\<lambda>(m, e). (sub_n sub, sub_l sub, m, e))
                   (orbital_distribution (sub_l sub) (electrons sub))"
proof -
  define h where "h = (highlightSubshell st = ''all'' \<or> highlightSubshell st = sub_label sub)"
  define dm where "dm = cloudDensity st * (if h then 1 else 0.15)"
  have dm: "0 \<le> dm" using assms by (simp add: dm_def)
  obtain new w' k' where r: "atom_orbital_loop sub h dm (- sub_l sub) (electrons sub) w rnd k = Inr (w', k')"
    and o: "orbitalClouds w' = orbitalClouds w @ new"
    and m: "map cloudTag new = map (\<lambda>(m, e). (sub_n sub, sub_l sub, m, e))
               (orbital_distribution (sub_l sub) (electrons sub))"
    using atom_orbital_loop_dist[OF dm] unfolding orbital_distribution_def by blast
  show ?thesis
    using r o m unfolding atomSubshell_def Let_def h_def[symmetric] dm_def[symmetric]
    by (cases "showLabels st \<and> h") auto
qed

text \<open>
  Claim C8. For a subshell \<open>(n, l)\<close> with \<open>1 \<le> electrons \<le> 2(2l+1)\<close> (and a cloud
  density factor that is not negative, so that every cloud can be built), the orbital
  loops of the atom assembler (the same loop in both of its branches) and of the
  molecule assembler add exactly the clouds of the distribution rule: \<open>m\<^sub>l\<close> runs
  upwards from \<open>-l\<close>, each orbital receives \<open>min(remaining, 2)\<close> electrons, and the loop
  stops when none remain. Every cloud carries 1 or 2 electrons, the counts sum to the
  subshell's electrons, and the clouds' quantum numbers and counts are a function of
  \<open>(n, l, electrons)\<close>: they do not depend on the random draws, the scene or the rest
  of the state.
\<close>

theorem orbital_distribution_rule:
  assumes "0 \<le> sub_l sub" and "1 \<le> electrons sub"
    and "electrons sub \<le> 2 * (2 * sub_l sub + 1)" and "0 \<le> cloudDensity st"
  shows "(\<exists>new w' k'. atomSubshell st sub w rnd k = Inr (w', k')
            \<and> orbitalClouds w' = orbitalClouds w @ new
            \<and> map cloudTag new
              = map (\<lambda>(m, e). (sub_n sub, sub_l sub, m, e))
                    (orbital_distribution (sub_l sub) (electrons sub)))
       \<and> (\<exists>new w' k'. mol_orbital_loop st off sub (- sub_l sub) (electrons sub) w rnd k = Inr (w', k')
            \<and> orbitalClouds w' = orbitalClouds w @ new
            \<and> map cloudTag new
              = map (\<lambda>(m, e). (sub_n sub, sub_l sub, m, e))
                    (orbital_distribution (sub_l sub) (electrons sub)))
       \<and> list_all (\<lambda>(m, e). - sub_l sub \<le> m \<and> m \<le> sub_l sub \<and> 1 \<le> e \<and> e \<le> 2)
            (orbital_distribution (sub_l sub) (electrons sub))
       \<and> map fst (orbital_distribution (sub_l sub) (electrons sub))
          = map (\<lambda>i. - sub_l sub + int i)
                [0..<length (orbital_distribution (sub_l sub) (electrons sub))]
       \<and> sum_list (map snd (orbital_distribution (sub_l sub) (electrons sub))) = electrons sub"
proof (intro conjI)
  show "\<exists>new w' k'. atomSubshell st sub w rnd k = Inr (w', k')
            \<and> orbitalClouds w' = orbitalClouds w @ new
            \<and> map cloudTag new
              = map (\<lambda>(m, e). (sub_n sub, sub_l sub, m, e))
                    (orbital_distribution (sub_l sub) (electrons sub))"
    by (rule atomSubshell_dist[OF assms(4)])
  show "\<exists>new w' k'. mol_orbital_loop st off sub (- sub_l sub) (electrons sub) w rnd k = Inr (w', k')
            \<and> orbitalClouds w' = orbitalClouds w @ new
            \<and> map cloudTag new
              = map (\<lambda>(m, e). (sub_n sub, sub_l sub, m, e))
                    (orbital_distribution (sub_l sub) (electrons sub))"
    unfolding orbital_distribution_def by (rule mol_orbital_loop_dist[OF assms(4)])
  show "list_all (\<lambda>(m, e). - sub_l sub \<le> m \<and> m \<le> sub_l sub \<and> 1 \<le> e \<and> e \<le> 2)
            (orbital_distribution (sub_l sub) (electrons sub))"
    unfolding orbital_distribution_def by (rule dist_counts)
  show "map fst (orbital_distribution (sub_l sub) (electrons sub))
          = map (\<lambda>i. - sub_l sub + int i)
                [0..<length (orbital_distribution (sub_l sub) (electrons sub))]"
    unfolding orbital_distribution_def by (rule dist_mls)
  show "sum_list (map snd (orbital_distribution (sub_l sub) (electrons sub))) = electrons sub"
    unfolding orbital_distribution_def using assms by (subst dist_sum) auto
qed

lemma dist_2p3: "orbital_distribution 1 3 = [(-1, 2), (0, 1)]"
  by (simp add: orbital_distribution_def orbital_distribution_from.simps)

theorem orbital_distribution_rule_witness:
  "(\<exists>new w' k'. atomSubshell initial_state sub_2p3 empty_world (\<lambda>i. 0) 0 = Inr (w', k')
       \<and> orbitalClouds w' = new \<and> map cloudTag new = [(2, 1, -1, 2), (2, 1, 0, 1)])
   \<and> (\<exists>new w' k'. mol_orbital_loop initial_state (0, 0, 0) sub_2p3 (-1) 3 empty_world (\<lambda>i. 0) 0
                     = Inr (w', k')
       \<and> orbitalClouds w' = new \<and> map cloudTag new = [(2, 1, -1, 2), (2, 1, 0, 1)])
   \<and> sum_list (map snd (orbital_distribution 1 3)) = 3"
  using orbital_distribution_rule[of sub_2p3 initial_state empty_world "\<lambda>i. 0" 0 "(0, 0, 0)"]
  by (simp add: sub_2p3_def initial_state_def empty_world_def dist_2p3)



lemma atom_subshells_dist:
  "0 \<le> cloudDensity st \<Longrightarrow>
   \<exists>w' k'. atom_subshells st config w rnd k = Inr (w', k')
     \<and> map cloudTag (orbitalClouds w')
       = map cloudTag (orbitalClouds w)
         @ concat (map subshellTags config)"
proof (induction config arbitrary: w k)
  case Nil
  then show ?case by simp
next
  case (Cons sub rest)
  obtain new w1 k1 where a: "atomSubshell st sub w rnd k = Inr (w1, k1)"
    and o: "orbitalClouds w1 = orbitalClouds w @ new"
    and m: "map cloudTag new = subshellTags sub"
    using atomSubshell_dist[OF Cons.prems] unfolding subshellTags_def by blast
  obtain w' k' where r: "atom_subshells st rest w1 rnd k1 = Inr (w', k')"
    and t: "map cloudTag (orbitalClouds w')
       = map cloudTag (orbitalClouds w1)
         @ concat (map subshellTags rest)"
    using Cons.IH[OF Cons.prems] by blast
  show ?case using a r t o m by simp
qed

text \<open>For an element of the catalog the atom assembler succeeds, and the clouds of the
  scene are those of the distribution rule, subshell by subshell of the configuration.\<close>

lemma rebuildAtom_clouds:
  assumes "ELEMENTS (elementZ st) = Some el" and "0 \<le> cloudDensity st"
  shows "\<exists>w' k'. rebuildAtom st w rnd k = Inr (w', k')
     \<and> map cloudTag (orbitalClouds w')
       = concat (map subshellTags (getElectronConfiguration (elementZ st)))"
proof -
  obtain nuc k1 where n: "buildNucleus st (el_z el) (el_neutrons el)
                            (ORBITAL_COLORS (colorScheme st)) rnd k = (nuc, k1)"
    by (cases "buildNucleus st (el_z el) (el_neutrons el) (ORBITAL_COLORS (colorScheme st)) rnd k")
  define w2 where "w2 = (let w1 = (clearScene w)\<lparr>nucleusGroup := Some (nuc\<lparr>nuc_scale := nucleusScale st\<rparr>),
                               atomGroup := atomGroup (clearScene w) @ [NucleusGlobal]\<rparr>
       in if showLabels st then
                               addLabel w1
                                 (createLabel
                                    (Plain (show_int (el_z el) @ ''p  ''
                                            @ show_int (el_neutrons el) @ ''n''))
                                    (0, - 1.6 * nucleusScale st, 0) (Css ''#94a3b8''))
                             else w1)"
  have c: "orbitalClouds w2 = []"
    by (simp add: w2_def Let_def clearScene_def)
  have "rebuildAtom st w rnd k = atom_subshells st (getElectronConfiguration (elementZ st)) w2 rnd k1"
    using assms(1) n by (simp add: rebuildAtom_def Let_def w2_def)
  then show ?thesis
    using atom_subshells_dist[OF assms(2), of "getElectronConfiguration (elementZ st)" w2 rnd k1] c
    by simp
qed


subsection \<open>Missing elements\<close>

lemma ELEMENTS_outside: "Z < 1 \<or> 36 < Z \<Longrightarrow> ELEMENTS Z = None"
  by (auto simp: ELEMENTS_def ELEMENT_LIST_def mkElement_def)

lemma ELEMENTS_inside:
  assumes "1 \<le> Z" and "Z \<le> 36"
  shows "\<exists>el. ELEMENTS Z = Some el \<and> el_z el = Z"
proof -
  have "[1..36] = [1, 2, 3, 4, 5, 6, 7, 8, 9, 10, 11, 12, 13, 14, 15, 16, 17, 18, 19, 20, 21, 22, 23, 24, 25, 26, 27, 28, 29, 30, 31, 32, 33, 34, 35, 36 :: int]"
    by (simp add: upto.simps)
  moreover have "Z \<in> set [1..36]" using assms by simp
  ultimately have "Z \<in> set [1, 2, 3, 4, 5, 6, 7, 8, 9, 10, 11, 12, 13, 14, 15, 16, 17, 18, 19, 20, 21, 22, 23, 24, 25, 26, 27, 28, 29, 30, 31, 32, 33, 34, 35, 36 :: int]"
    by simp
  then show ?thesis
    by (auto simp: ELEMENTS_def ELEMENT_LIST_def mkElement_def)
qed

lemma rebuildAtom_throws: "ELEMENTS (elementZ st) = None \<Longrightarrow> rebuildAtom st w rnd k = Inl TypeError"
  by (simp add: rebuildAtom_def Let_def)

lemma molAtom_skips: "ELEMENTS (a_z atom) = None \<Longrightarrow> molAtom st sch atom w rnd k = Inr (w, k)"
  by (simp add: molAtom_def)

text \<open>
  Claim C6 asks that an atomic number outside the catalog is skipped by both assemblers.
  The molecule assembler skips such an atom. The atom assembler does not: for the atomic
  number 37 it throws a TypeError, whatever the rest of the state, the scene and the
  random draws are.
\<close>

theorem rebuildAtom_missing_element:
  "rebuildAtom (st\<lparr>elementZ := 37\<rparr>) w rnd k = Inl TypeError
   \<and> molAtom st sch \<lparr>a_z = 37, a_pos = p\<rparr> w rnd k = Inr (w, k)"
  by (simp add: rebuildAtom_throws molAtom_skips ELEMENTS_outside)

section \<open>The rejection bound of sampleRadius\<close>

text \<open>The sampler divides the density of an accepted draw by \<open>probMax\<close>, 1.05 times the
  largest value of the density on a grid of 201 points. That the quotient is at most 1
  needs the density to stay below \<open>probMax\<close> between the grid points as well. The proof
  goes through the differential equation of the radial function: at a maximum of the
  density the second derivative is bounded below, so the density cannot fall by more
  than a twentieth within half a grid step.\<close>

subsection \<open>Derivatives of the Laguerre polynomials\<close>

lemma laguerre_spec_deriv:
  "((\<lambda>x. laguerre_spec k x p) has_real_derivative laguerre_d k x p) (at x)"
proof (induction p arbitrary: x rule: laguerre_spec.induct[where ?a0.0 = k and ?a1.0 = x])
  case (1 k x)
  show ?case by simp
next
  case (2 k x)
  show ?case by (auto intro!: derivative_eq_intros)
next
  case (3 k x i)
  show ?case
    unfolding laguerre_spec.simps laguerre_d.simps
    by (rule derivative_eq_intros "3.IH" refl | simp)+
qed

lemma laguerre_D_step:
  fixes A B C dA dC x k rp :: real
  assumes rel: "(rp + 2) * C = (2 * rp + 3 + k - x) * A - (rp + 1 + k) * B"
    and ihA: "x * dA = (rp + 1) * A - (rp + 1 + k) * B"
    and ihC: "x * dC = (rp + 2) * C - (rp + 2 + k) * A"
  shows "x * (- C + (2 * rp + 5 + k - x) * dC - (rp + 2 + k) * dA)
         = (rp + 3) * ((2 * rp + 5 + k - x) * C - (rp + 2 + k) * A) - (rp + 3) * (rp + 3 + k) * C"
proof -
  have B: "(rp + 1 + k) * B = (2 * rp + 3 + k - x) * A - (rp + 2) * C"
    using rel by simp
  have "x * (- C + (2 * rp + 5 + k - x) * dC - (rp + 2 + k) * dA)
        = - x * C + (2 * rp + 5 + k - x) * (x * dC) - (rp + 2 + k) * (x * dA)"
    by (simp add: algebra_simps)
  also have "\<dots> = - x * C + (2 * rp + 5 + k - x) * ((rp + 2) * C - (rp + 2 + k) * A)
                    - (rp + 2 + k) * ((rp + 1) * A - ((2 * rp + 3 + k - x) * A - (rp + 2) * C))"
    by (simp only: ihA ihC B)
  also have "\<dots> = (rp + 3) * ((2 * rp + 5 + k - x) * C - (rp + 2 + k) * A)
                    - (rp + 3) * (rp + 3 + k) * C"
    by (simp add: algebra_simps)
  finally show ?thesis .
qed

lemma laguerre_spec_rec:
  "(real p + 2) * laguerre_spec k x (Suc (Suc p))
   = (2 * real p + 3 + k - x) * laguerre_spec k x (Suc p) - (real p + 1 + k) * laguerre_spec k x p"
proof -
  have c1: "2 * real (Suc (Suc p)) - 1 + k - x = 2 * real p + 3 + k - x" by simp
  have c2: "real (Suc (Suc p)) - 1 + k = real p + 1 + k" by simp
  have c3: "real (Suc (Suc p)) = real p + 2" by simp
  have "0 \<le> real p" by simp
  then have nz: "real p + 2 \<noteq> 0" by linarith
  have "laguerre_spec k x (Suc (Suc p))
        = ((2 * real p + 3 + k - x) * laguerre_spec k x (Suc p)
           - (real p + 1 + k) * laguerre_spec k x p) / (real p + 2)"
    by (simp only: laguerre_spec.simps c1 c2) (simp only: c3)
  then show ?thesis using nz by simp
qed

lemma laguerre_d_rec:
  "(real p + 2) * laguerre_d k x (Suc (Suc p))
   = - laguerre_spec k x (Suc p) + (2 * real p + 3 + k - x) * laguerre_d k x (Suc p)
     - (real p + 1 + k) * laguerre_d k x p"
proof -
  have c1: "2 * real (Suc (Suc p)) - 1 + k - x = 2 * real p + 3 + k - x" by simp
  have c2: "real (Suc (Suc p)) - 1 + k = real p + 1 + k" by simp
  have c3: "real (Suc (Suc p)) = real p + 2" by simp
  have "0 \<le> real p" by simp
  then have nz: "real p + 2 \<noteq> 0" by linarith
  have "laguerre_d k x (Suc (Suc p))
        = (- laguerre_spec k x (Suc p) + (2 * real p + 3 + k - x) * laguerre_d k x (Suc p)
           - (real p + 1 + k) * laguerre_d k x p) / (real p + 2)"
    by (simp only: laguerre_d.simps c1 c2) (simp only: c3)
  then show ?thesis using nz by simp
qed

lemma laguerre_D_pair:
  "x * laguerre_d k x (Suc p) = (real p + 1) * laguerre_spec k x (Suc p)
                                - (real p + 1 + k) * laguerre_spec k x p
   \<and> x * laguerre_d k x (Suc (Suc p)) = (real p + 2) * laguerre_spec k x (Suc (Suc p))
                                - (real p + 2 + k) * laguerre_spec k x (Suc p)"
proof (induction p)
  case 0
  show ?case by (simp add: field_simps)
next
  case (Suc p)
  define A where "A = laguerre_spec k x (Suc p)"
  define B where "B = laguerre_spec k x p"
  define C where "C = laguerre_spec k x (Suc (Suc p))"
  define dA where "dA = laguerre_d k x (Suc p)"
  define dC where "dC = laguerre_d k x (Suc (Suc p))"
  define E where "E = laguerre_spec k x (Suc (Suc (Suc p)))"
  define dE where "dE = laguerre_d k x (Suc (Suc (Suc p)))"
  have s1: "real (Suc p) + 1 = real p + 2" "real (Suc p) + 2 = real p + 3"
    "2 * real (Suc p) + 3 = 2 * real p + 5" "real (Suc p) + 1 + k = real p + 2 + k"
    "real (Suc p) + 2 + k = real p + 3 + k"
    by simp_all
  have rel: "(real p + 2) * C = (2 * real p + 3 + k - x) * A - (real p + 1 + k) * B"
    unfolding A_def B_def C_def by (rule laguerre_spec_rec)
  have ihA: "x * dA = (real p + 1) * A - (real p + 1 + k) * B"
    using Suc.IH unfolding A_def B_def dA_def by blast
  have ihC: "x * dC = (real p + 2) * C - (real p + 2 + k) * A"
    using Suc.IH unfolding A_def C_def dC_def by blast
  have L3: "(real p + 3) * E = (2 * real p + 5 + k - x) * C - (real p + 2 + k) * A"
    using laguerre_spec_rec[of "Suc p" k x] unfolding A_def C_def E_def s1 .
  have d3: "(real p + 3) * dE = - C + (2 * real p + 5 + k - x) * dC - (real p + 2 + k) * dA"
    using laguerre_d_rec[of "Suc p" k x] unfolding dA_def C_def dC_def dE_def s1 .
  have "0 \<le> real p" by simp
  then have nz: "real p + 3 \<noteq> 0" by linarith
  have "(real p + 3) * (x * dE) = x * ((real p + 3) * dE)" by simp
  also have "\<dots> = x * (- C + (2 * real p + 5 + k - x) * dC - (real p + 2 + k) * dA)"
    by (simp only: d3)
  also have "\<dots> = (real p + 3) * ((2 * real p + 5 + k - x) * C - (real p + 2 + k) * A)
                    - (real p + 3) * (real p + 3 + k) * C"
    by (rule laguerre_D_step[OF rel ihA ihC])
  also have "\<dots> = (real p + 3) * ((real p + 3) * E - (real p + 3 + k) * C)"
    by (simp only: L3[symmetric]) (simp add: algebra_simps)
  finally have "x * dE = (real p + 3) * E - (real p + 3 + k) * C"
    using nz by simp
  then have new: "x * laguerre_d k x (Suc (Suc (Suc p)))
       = (real (Suc p) + 2) * laguerre_spec k x (Suc (Suc (Suc p)))
         - (real (Suc p) + 2 + k) * laguerre_spec k x (Suc (Suc p))"
    unfolding C_def E_def dE_def s1 .
  have old: "x * laguerre_d k x (Suc (Suc p)) = (real (Suc p) + 1) * laguerre_spec k x (Suc (Suc p))
                                - (real (Suc p) + 1 + k) * laguerre_spec k x (Suc p)"
    using Suc.IH unfolding s1 by blast
  show ?case using old new by blast
qed

lemma laguerre_D:
  "x * laguerre_d k x (Suc p) = (real p + 1) * laguerre_spec k x (Suc p)
                                - (real p + 1 + k) * laguerre_spec k x p"
  using laguerre_D_pair by blast

lemma laguerre_F:
  "x * laguerre_d k x p = (real p + 1) * laguerre_spec k x (Suc p)
                          - (real p + 1 + k - x) * laguerre_spec k x p"
proof (cases p)
  case 0
  then show ?thesis by simp
next
  case (Suc q)
  have s1: "real (Suc q) + 1 = real q + 2" "real (Suc q) + 1 + k - x = real q + 2 + k - x"
    by simp_all
  have rel: "(real q + 1 + k) * laguerre_spec k x q
             = (2 * real q + 3 + k - x) * laguerre_spec k x (Suc q)
               - (real q + 2) * laguerre_spec k x (Suc (Suc q))"
    using laguerre_spec_rec[of q k x] by simp
  have "x * laguerre_d k x (Suc q) = (real q + 1) * laguerre_spec k x (Suc q)
                                - (real q + 1 + k) * laguerre_spec k x q"
    by (rule laguerre_D)
  also have "\<dots> = (real q + 1) * laguerre_spec k x (Suc q)
                   - ((2 * real q + 3 + k - x) * laguerre_spec k x (Suc q)
                      - (real q + 2) * laguerre_spec k x (Suc (Suc q)))"
    by (simp only: rel)
  also have "\<dots> = (real q + 2) * laguerre_spec k x (Suc (Suc q))
                    - (real q + 2 + k - x) * laguerre_spec k x (Suc q)"
    by (simp add: algebra_simps)
  finally show ?thesis unfolding Suc s1 .
qed

lemma laguerre_d_deriv:
  "((\<lambda>x. laguerre_d k x p) has_real_derivative laguerre_dd k x p) (at x)"
proof (induction p arbitrary: x rule: laguerre_d.induct[where ?a0.0 = k and ?a1.0 = x])
  case (1 k x)
  show ?case by simp
next
  case (2 k x)
  show ?case by simp
next
  case (3 k x i)
  show ?case
    unfolding laguerre_d.simps laguerre_dd.simps
    by (rule derivative_eq_intros "3.IH" laguerre_spec_deriv refl | simp)+
qed

lemma laguerre_E:
  "laguerre_d k x (Suc p) + x * laguerre_dd k x (Suc p)
   = (real p + 1) * laguerre_d k x (Suc p) - (real p + 1 + k) * laguerre_d k x p"
proof -
  have l: "((\<lambda>x. x * laguerre_d k x (Suc p)) has_real_derivative
            (laguerre_d k x (Suc p) + x * laguerre_dd k x (Suc p))) (at x)"
    by (rule derivative_eq_intros laguerre_d_deriv refl | simp)+
  have r: "((\<lambda>x. (real p + 1) * laguerre_spec k x (Suc p)
                  - (real p + 1 + k) * laguerre_spec k x p) has_real_derivative
            ((real p + 1) * laguerre_d k x (Suc p) - (real p + 1 + k) * laguerre_d k x p)) (at x)"
    by (rule derivative_eq_intros laguerre_spec_deriv refl | simp)+
  have eq: "(\<lambda>x. x * laguerre_d k x (Suc p))
            = (\<lambda>x. (real p + 1) * laguerre_spec k x (Suc p)
                  - (real p + 1 + k) * laguerre_spec k x p)"
    by (rule ext) (rule laguerre_D)
  show ?thesis using l r unfolding eq by (rule DERIV_unique)
qed

lemma laguerre_ode_step:
  fixes x k q d dp dd L Lp :: real
  assumes E: "d + x * dd = q * d - (q + k) * dp"
    and F: "x * dp = q * L - (q + k - x) * Lp"
    and D: "x * d = q * L - (q + k) * Lp"
  shows "x * (x * dd + (k + 1 - x) * d + q * L) = 0"
proof -
  have Lp: "(q + k) * Lp = q * L - x * d" using D by simp
  have "x * (d + x * dd) = x * (q * d - (q + k) * dp)" by (simp only: E)
  then have "x * d + x * (x * dd) = q * (x * d) - (q + k) * (x * dp)"
    by (simp add: algebra_simps)
  then have "x * d + x * (x * dd) = q * (x * d) - (q + k) * (q * L - (q + k - x) * Lp)"
    by (simp only: F)
  then have "x * d + x * (x * dd) = q * (x * d) - (q + k) * q * L + (q + k - x) * ((q + k) * Lp)"
    by (simp add: algebra_simps)
  then have "x * d + x * (x * dd) = q * (x * d) - (q + k) * q * L + (q + k - x) * (q * L - x * d)"
    by (simp only: Lp)
  then show ?thesis by (simp add: algebra_simps)
qed

lemma laguerre_ode:
  "x * (x * laguerre_dd k x q + (k + 1 - x) * laguerre_d k x q + real q * laguerre_spec k x q) = 0"
proof (cases q)
  case 0
  then show ?thesis by simp
next
  case (Suc p)
  have s: "real (Suc p) = real p + 1" by simp
  show ?thesis
    unfolding Suc s
    by (rule laguerre_ode_step[OF laguerre_E laguerre_F laguerre_D])
qed

subsection \<open>The radial equation\<close>

lemma rf_deriv: "(rf l q has_real_derivative rf1 l q x) (at x)"
  unfolding rf_def[abs_def] rf1_def
  by (rule derivative_eq_intros laguerre_spec_deriv refl | simp)+

lemma rf1_deriv: "(rf1 l q has_real_derivative rf2 l q x) (at x)"
  unfolding rf1_def[abs_def] rf2_def
  by (rule derivative_eq_intros laguerre_spec_deriv laguerre_d_deriv refl | simp add: algebra_simps)+

lemma ru_deriv: "(ru l q has_real_derivative ru1 l q x) (at x)"
  unfolding ru_def[abs_def] ru1_def
  by (rule derivative_eq_intros rf_deriv refl | simp add: algebra_simps)+

lemma ru1_deriv: "(ru1 l q has_real_derivative ru2 l q x) (at x)"
  unfolding ru1_def[abs_def] ru2_def
  by (rule derivative_eq_intros rf_deriv rf1_deriv refl | simp add: algebra_simps)+

lemma pow_pred: "real l * (x * x * x ^ (l - 1)) = real l * x ^ Suc l"
  by (cases l) (simp_all add: algebra_simps)

lemma rf_identity_alg:
  fixes x L d dd rl rq xl :: real
  assumes ode: "x * (x * dd) = - x * (2 * rl + 2 - x) * d - rq * x * L"
  shows "(rl + 1) * (rl * (xl * x)) * L + 2 * ((rl + 1) * (xl * (x * x)) * d)
            + xl * x * (x * (x * dd))
         - ((rl + 1) * (xl * (x * x)) * L + xl * x * (x * x) * d)
         + xl * x * (x * x) * L / 4
         = - ((rq + rl + 1) * x - x * x / 4 - rl * (rl + 1)) * (xl * x * L)"
  unfolding ode by (simp add: algebra_simps)

lemma rf_identity:
  "x * x * (rf2 l q x - rf1 l q x + rf l q x / 4) = - rQ l q x * rf l q x"
proof -
  define L where "L = laguerre_spec (2 * real l + 1) x q"
  define d where "d = laguerre_d (2 * real l + 1) x q"
  define dd where "dd = laguerre_dd (2 * real l + 1) x q"
  have ode: "x * (x * dd) = - x * (2 * real l + 2 - x) * d - real q * x * L"
    using laguerre_ode[of x "2 * real l + 1" q] unfolding L_def d_def dd_def
    by (simp add: algebra_simps)
  have t1: "x * x * (real (Suc l) * (real l * x ^ (l - 1)) * L)
            = (real l + 1) * (real l * (x ^ l * x)) * L"
    by (cases l) (simp_all add: algebra_simps)
  have "x * x * (rf2 l q x - rf1 l q x + rf l q x / 4)
        = x * x * (real (Suc l) * (real l * x ^ (l - 1)) * L)
          + 2 * ((real l + 1) * (x ^ l * (x * x)) * d)
          + x ^ l * x * (x * (x * dd))
          - ((real l + 1) * (x ^ l * (x * x)) * L + x ^ l * x * (x * x) * d)
          + x ^ l * x * (x * x) * L / 4"
    unfolding rf_def rf1_def rf2_def L_def[symmetric] d_def[symmetric] dd_def[symmetric]
    by (simp add: algebra_simps)
  also have "\<dots> = (real l + 1) * (real l * (x ^ l * x)) * L
          + 2 * ((real l + 1) * (x ^ l * (x * x)) * d)
          + x ^ l * x * (x * (x * dd))
          - ((real l + 1) * (x ^ l * (x * x)) * L + x ^ l * x * (x * x) * d)
          + x ^ l * x * (x * x) * L / 4"
    by (simp only: t1)
  also have "\<dots> = - ((real q + real l + 1) * x - x * x / 4 - real l * (real l + 1))
                      * (x ^ l * x * L)"
    by (rule rf_identity_alg[OF ode])
  also have "\<dots> = - rQ l q x * rf l q x"
    unfolding rQ_def rf_def L_def by simp
  finally show ?thesis .
qed

lemma ru_ode: "x * x * ru2 l q x = - rQ l q x * ru l q x"
proof -
  have "x * x * ru2 l q x = (x * x * (rf2 l q x - rf1 l q x + rf l q x / 4)) * exp (- x / 2)"
    by (simp add: ru2_def)
  also have "\<dots> = - rQ l q x * rf l q x * exp (- x / 2)"
    by (simp only: rf_identity)
  finally show ?thesis by (simp add: ru_def)
qed

subsection \<open>The density near a maximum\<close>

lemma rP_deriv: "(rP l q has_real_derivative rP1 l q x) (at x)"
  unfolding rP_def[abs_def] rP1_def
  by (rule derivative_eq_intros ru_deriv refl | simp)+

lemma rP1_deriv: "(rP1 l q has_real_derivative rP2 l q x) (at x)"
  unfolding rP1_def[abs_def] rP2_def
  by (rule derivative_eq_intros ru_deriv ru1_deriv refl | simp add: algebra_simps)+

lemma rP_nonneg: "0 \<le> rP l q x"
  by (simp add: rP_def)

lemma rP2_lower:
  assumes "0 < t" and "rQ l q t \<le> w * (t * t)"
  shows "- 2 * w * rP l q t \<le> rP2 l q t"
proof -
  have t2: "0 < t * t" using assms(1) by simp
  have "t * t * (ru l q t * ru2 l q t) = ru l q t * (t * t * ru2 l q t)" by simp
  also have "\<dots> = - rQ l q t * rP l q t" by (simp add: ru_ode rP_def)
  finally have e: "t * t * (ru l q t * ru2 l q t) = - rQ l q t * rP l q t" .
  have "rQ l q t * rP l q t \<le> w * (t * t) * rP l q t"
    using assms(2) rP_nonneg by (rule mult_right_mono)
  then have "t * t * (- w * rP l q t) \<le> t * t * (ru l q t * ru2 l q t)"
    unfolding e by (simp add: algebra_simps)
  then have "- w * rP l q t \<le> ru l q t * ru2 l q t"
    using t2 by (simp only: mult_le_cancel_left_pos)
  moreover have "0 \<le> ru1 l q t * ru1 l q t" by simp
  ultimately show ?thesis unfolding rP2_def by linarith
qed

lemma local_max_bound:
  assumes mx: "\<forall>y. 0 \<le> y \<and> y \<le> R \<longrightarrow> rP l q y \<le> rP l q m"
    and m: "0 < m" "m < R"
    and g: "0 \<le> g" "g \<le> R" "\<bar>g - m\<bar> \<le> \<delta>"
    and w: "0 \<le> w" "\<forall>t. 0 < t \<and> \<bar>t - m\<bar> \<le> \<delta> \<longrightarrow> rQ l q t \<le> w * (t * t)"
  shows "rP l q m * (1 - w * (\<delta> * \<delta>)) \<le> rP l q g"
proof (cases "g = m")
  case True
  have "0 \<le> w * (\<delta> * \<delta>)" using w(1) by simp
  then have "rP l q m * (1 - w * (\<delta> * \<delta>)) \<le> rP l q m * 1"
    using rP_nonneg[of l q m] by (intro mult_left_mono) simp_all
  then show ?thesis using True by simp
next
  case False
  define d where "d = min m (R - m)"
  have d: "0 < d" using m by (simp add: d_def)
  have "\<forall>y. \<bar>m - y\<bar> < d \<longrightarrow> rP l q y \<le> rP l q m"
  proof (intro allI impI)
    fix y assume "\<bar>m - y\<bar> < d"
    then have "0 \<le> y \<and> y \<le> R" unfolding d_def by (simp add: abs_less_iff)
    then show "rP l q y \<le> rP l q m" using mx by blast
  qed
  then have z: "rP1 l q m = 0"
    using DERIV_local_max[OF rP_deriv d] by blast
  define diff where "diff = (\<lambda>i::nat. if i = 0 then rP l q else if i = 1 then rP1 l q else rP2 l q)"
  have dd: "\<forall>i t. i < 2 \<and> min g m \<le> t \<and> t \<le> max g m \<longrightarrow>
              (diff i has_real_derivative diff (Suc i) t) (at t)"
  proof (intro allI impI)
    fix i :: nat and t :: real
    assume "i < 2 \<and> min g m \<le> t \<and> t \<le> max g m"
    then consider "i = 0" | "i = 1" by linarith
    then show "(diff i has_real_derivative diff (Suc i) t) (at t)"
      by cases (simp_all add: diff_def rP_deriv rP1_deriv)
  qed
  have "\<exists>t. (if g < m then g < t \<and> t < m else m < t \<and> t < g)
            \<and> rP l q g = (\<Sum>i<2. diff i m / fact i * (g - m) ^ i)
                        + diff 2 t / fact 2 * (g - m) ^ 2"
  proof (rule Taylor)
    show "0 < (2::nat)" by simp
    show "diff 0 = rP l q" by (simp add: diff_def)
    show "\<forall>i t. i < 2 \<and> min g m \<le> t \<and> t \<le> max g m \<longrightarrow>
              (diff i has_real_derivative diff (Suc i) t) (at t)" by (rule dd)
    show "min g m \<le> m" "m \<le> max g m" "min g m \<le> g" "g \<le> max g m" by simp_all
    show "g \<noteq> m" by (rule False)
  qed
  then obtain t where t: "if g < m then g < t \<and> t < m else m < t \<and> t < g"
    and tay: "rP l q g = (\<Sum>i<2. diff i m / fact i * (g - m) ^ i)
                        + diff 2 t / fact 2 * (g - m) ^ 2"
    by blast
  have tpos: "0 < t" using t g(1) m(1) by (auto split: if_splits)
  have tR: "t \<le> R" using t g(2) m(2) by (auto split: if_splits)
  have tm: "\<bar>t - m\<bar> \<le> \<delta>" using t g(3) by (auto split: if_splits)
  have e: "rP l q g = rP l q m + rP2 l q t / 2 * ((g - m) * (g - m))"
    using tay z by (simp add: diff_def numeral_2_eq_2 power2_eq_square)
  have q: "rQ l q t \<le> w * (t * t)" using w(2) tpos tm by blast
  have "- 2 * w * rP l q t \<le> rP2 l q t" by (rule rP2_lower[OF tpos q])
  moreover have tm': "rP l q t \<le> rP l q m" using mx tpos tR by simp
  moreover have "w * rP l q t \<le> w * rP l q m" using tm' w(1) by (rule mult_left_mono)
  ultimately have lo: "- w * rP l q m \<le> rP2 l q t / 2"
    by (simp add: algebra_simps)
  have sq: "0 \<le> (g - m) * (g - m)" by simp
  have "\<bar>g - m\<bar> * \<bar>g - m\<bar> \<le> \<delta> * \<delta>"
    using g(3) by (intro mult_mono) simp_all
  then have sq2: "(g - m) * (g - m) \<le> \<delta> * \<delta>" by simp
  have "- w * rP l q m * (\<delta> * \<delta>) \<le> - w * rP l q m * ((g - m) * (g - m))"
    using sq2 w(1) rP_nonneg[of l q m] by (simp add: mult_left_mono)
  also have "\<dots> \<le> rP2 l q t / 2 * ((g - m) * (g - m))"
    using lo sq by (rule mult_right_mono)
  finally have f: "- w * rP l q m * (\<delta> * \<delta>) \<le> rP2 l q t / 2 * ((g - m) * (g - m))" .
  have "rP l q m * (1 - w * (\<delta> * \<delta>)) = rP l q m + - w * rP l q m * (\<delta> * \<delta>)"
    by (simp add: algebra_simps)
  then show ?thesis unfolding e using f by linarith
qed

subsection \<open>The density of the code and the grid\<close>

lemma radialProbability_rP:
  assumes "0 \<le> l" and "l < n"
  shows "radialProbability n l x = rP (nat l) (nat (n - l - 1)) x"
proof -
  have p: "x powi l = x ^ nat l" using assms by (simp add: power_int_def)
  have k: "real_of_int (2 * l + 1) = 2 * real (nat l) + 1" using assms by simp
  have L: "laguerreL (n - l - 1) (real_of_int (2 * l + 1)) x
           = laguerre_spec (2 * real (nat l) + 1) x (nat (n - l - 1))"
    using assms by (simp only: k) (rule laguerreL_spec, simp)
  show ?thesis
    unfolding radialProbability_def Let_def L p rP_def ru_def rf_def
    by (simp add: algebra_simps)
qed

lemma fold_max_ge_init:
  "a \<le> fold (\<lambda>i pm. if f i > pm then f i else pm) xs (a::real)"
proof (induction xs arbitrary: a)
  case Nil
  show ?case by simp
next
  case (Cons x xs)
  have "(if f x > a then f x else a) \<le> fold (\<lambda>i pm. if f i > pm then f i else pm) xs (if f x > a then f x else a)"
    by (rule Cons.IH)
  then show ?case by (simp split: if_splits)
qed

lemma fold_max_ge_elem:
  "i \<in> set xs \<Longrightarrow> f i \<le> fold (\<lambda>i pm. if f i > pm then f i else pm) xs (a::real)"
proof (induction xs arbitrary: a)
  case Nil
  then show ?case by simp
next
  case (Cons x xs)
  show ?case
  proof (cases "i = x")
    case True
    have "(if f x > a then f x else a) \<le> fold (\<lambda>i pm. if f i > pm then f i else pm) xs (if f x > a then f x else a)"
      by (rule fold_max_ge_init)
    then show ?thesis using True by (simp split: if_splits)
  next
    case False
    then have "i \<in> set xs" using Cons.prems by simp
    then show ?thesis using Cons.IH by simp
  qed
qed

lemma probMax_grid_ge:
  "i \<le> 200 \<Longrightarrow> radialProbability n l (real i / 200 * R) \<le> probMax_grid n l R"
  unfolding probMax_grid_def Let_def
  by (rule fold_max_ge_elem[where f = "\<lambda>i. radialProbability n l (real i / 200 * R)"]) simp

lemma probMax_grid_nonneg: "0 \<le> probMax_grid n l R"
  unfolding probMax_grid_def Let_def
  by (rule fold_max_ge_init[where f = "\<lambda>i. radialProbability n l (real i / 200 * R)"])

lemma nearest_grid:
  assumes "0 \<le> x" and "x \<le> R" and "0 < R"
  shows "\<exists>i. i \<le> 200 \<and> \<bar>real i / 200 * R - x\<bar> \<le> R / 400"
proof -
  define y where "y = x * 200 / R"
  have y: "0 \<le> y" "y \<le> 200" using assms by (simp_all add: y_def field_simps)
  define i where "i = nat \<lfloor>y + 1 / 2\<rfloor>"
  have fl: "0 \<le> \<lfloor>y + 1 / 2\<rfloor>" using y by simp
  have ri: "real i = of_int \<lfloor>y + 1 / 2\<rfloor>" using fl by (simp add: i_def)
  have lo: "real i \<le> y + 1 / 2" unfolding ri by (rule of_int_floor_le)
  have hi: "y + 1 / 2 < real i + 1" unfolding ri by linarith
  have "real i \<le> 200 + 1 / 2" using lo y by linarith
  then have "real i < real 201" by simp
  then have i200: "i \<le> 200" by (simp only: of_nat_less_iff)
  have d: "\<bar>real i - y\<bar> \<le> 1 / 2" using lo hi unfolding abs_le_iff by linarith
  have e: "real i / 200 * R - x = (real i - y) * (R / 200)"
    using assms(3) by (simp add: y_def field_simps)
  have "\<bar>(real i - y) * (R / 200)\<bar> = \<bar>real i - y\<bar> * \<bar>R / 200\<bar>" by (rule abs_mult)
  also have "\<bar>R / 200\<bar> = R / 200" using assms(3) by simp
  finally have "\<bar>real i / 200 * R - x\<bar> = \<bar>real i - y\<bar> * (R / 200)"
    unfolding e .
  also have "\<dots> \<le> 1 / 2 * (R / 200)"
    using d assms(3) by (intro mult_right_mono) simp_all
  finally show ?thesis using i200 by auto
qed

lemma rP_attains_max:
  assumes "0 \<le> R"
  shows "\<exists>m. 0 \<le> m \<and> m \<le> R \<and> (\<forall>y. 0 \<le> y \<and> y \<le> R \<longrightarrow> rP l q y \<le> rP l q m)"
proof -
  have c: "continuous_on {0..R} (rP l q)"
    by (rule DERIV_continuous_on) (rule DERIV_subset[OF rP_deriv], simp)
  have "\<exists>x\<in>{0..R}. \<forall>y\<in>{0..R}. rP l q y \<le> rP l q x"
    by (rule continuous_attains_sup) (use assms c in simp_all)
  then show ?thesis by auto
qed

subsection \<open>A maximum against the nearest grid point\<close>

lemma interior_max_critical:
  assumes mx: "\<forall>y. 0 \<le> y \<and> y \<le> R \<longrightarrow> rP l q y \<le> rP l q m"
    and m: "0 < m" "m < R"
  shows "rP1 l q m = 0"
proof -
  define d where "d = min m (R - m)"
  have d: "0 < d" using m by (simp add: d_def)
  have "\<forall>y. \<bar>m - y\<bar> < d \<longrightarrow> rP l q y \<le> rP l q m"
  proof (intro allI impI)
    fix y assume "\<bar>m - y\<bar> < d"
    then have "0 \<le> y \<and> y \<le> R" unfolding d_def by (simp add: abs_less_iff)
    then show "rP l q y \<le> rP l q m" using mx by blast
  qed
  then show ?thesis using DERIV_local_max[OF rP_deriv d] by blast
qed

lemma max_vs_grid:
  assumes l: "0 \<le> l" "l < n"
    and R: "R = 3 * real_of_int n + 4"
    and mx: "\<forall>y. 0 \<le> y \<and> y \<le> R \<longrightarrow> rP (nat l) (nat (n - l - 1)) y \<le> rP (nat l) (nat (n - l - 1)) m"
    and m: "0 < m" "m < R"
    and w: "0 \<le> w"
      "\<forall>t. 0 < t \<and> \<bar>t - m\<bar> \<le> R / 400 \<longrightarrow> rQ (nat l) (nat (n - l - 1)) t \<le> w * (t * t)"
    and small: "w * (R / 400 * (R / 400)) \<le> 1 / 21"
  shows "rP (nat l) (nat (n - l - 1)) m \<le> probMax_grid n l R * 1.05"
proof -
  have Rpos: "0 < R" using m by linarith
  obtain i where i: "i \<le> 200" and near: "\<bar>real i / 200 * R - m\<bar> \<le> R / 400"
    using nearest_grid[of m R] m Rpos by auto
  define g where "g = real i / 200 * R"
  have g0: "0 \<le> g" using Rpos by (simp add: g_def)
  have "real i \<le> 200" using i by simp
  then have "real i / 200 * R \<le> 1 * R" using Rpos by (intro mult_right_mono) simp_all
  then have gR: "g \<le> R" by (simp add: g_def)
  have b: "rP (nat l) (nat (n - l - 1)) m * (1 - w * (R / 400 * (R / 400)))
           \<le> rP (nat l) (nat (n - l - 1)) g"
    using local_max_bound[OF mx m g0 gR _ w] near unfolding g_def by blast
  have "rP (nat l) (nat (n - l - 1)) g = radialProbability n l (real i / 200 * R)"
    unfolding g_def using radialProbability_rP[OF l] by simp
  also have "\<dots> \<le> probMax_grid n l R" by (rule probMax_grid_ge[OF i])
  finally have G: "rP (nat l) (nat (n - l - 1)) g \<le> probMax_grid n l R" .
  have "20 / 21 \<le> 1 - w * (R / 400 * (R / 400))" using small by linarith
  then have "rP (nat l) (nat (n - l - 1)) m * (20 / 21)
             \<le> rP (nat l) (nat (n - l - 1)) m * (1 - w * (R / 400 * (R / 400)))"
    using rP_nonneg by (intro mult_left_mono) simp_all
  then have "rP (nat l) (nat (n - l - 1)) m * (20 / 21) \<le> probMax_grid n l R"
    using b G by linarith
  then show ?thesis by simp
qed

lemma rQ_bound_l_pos:
  assumes "1 \<le> l" and "real q + real l + 1 \<le> 7" and "0 < t"
  shows "rQ l q t \<le> 49 / 8 * (t * t)"
proof -
  have "1 \<le> real l" using assms(1) by simp
  then have "1 * (1 + 1) \<le> real l * (real l + 1)" by (intro mult_mono) simp_all
  then have c: "2 \<le> real l * (real l + 1)" by simp
  have "(real q + real l + 1) * t \<le> 7 * t" using assms(2,3) by (intro mult_right_mono) simp_all
  moreover have "0 \<le> t * t / 4" by simp
  ultimately have "rQ l q t \<le> 7 * t - 2" unfolding rQ_def using c by linarith
  moreover have "0 \<le> (7 * t - 4) * (7 * t - 4)" by simp
  then have "7 * t - 2 \<le> 49 / 8 * (t * t)" by (simp add: algebra_simps)
  ultimately show ?thesis by linarith
qed

lemma rQ_bound_l0:
  assumes "real q + 1 \<le> 7" and "15 / 16 \<le> t"
  shows "rQ 0 q t \<le> 112 / 15 * (t * t)"
proof -
  have t: "0 < t" using assms(2) by linarith
  have "(real q + 1) * t \<le> 7 * t" using assms(1) t by (intro mult_right_mono) simp_all
  moreover have "0 \<le> t * t / 4" by simp
  moreover have "rQ 0 q t = (real q + 1) * t - t * t / 4" unfolding rQ_def by simp
  ultimately have "rQ 0 q t \<le> 7 * t" by linarith
  moreover have "15 / 16 * t \<le> t * t" using assms(2) t by (intro mult_right_mono) simp_all
  ultimately show ?thesis by linarith
qed

subsection \<open>The s orbitals: the outermost maximum is the largest\<close>

lemma ru2_l0:
  assumes "0 < x"
  shows "ru2 0 q x = - ((4 * (real q + 1) - x) / (4 * x)) * ru 0 q x"
proof -
  have "ru2 0 q x = (x * x * ru2 0 q x) / (x * x)" using assms by simp
  also have "\<dots> = (- rQ 0 q x * ru 0 q x) / (x * x)" by (simp only: ru_ode)
  also have "\<dots> = - ((4 * (real q + 1) - x) / (4 * x)) * ru 0 q x"
    unfolding rQ_def using assms by (simp add: field_simps)
  finally show ?thesis .
qed

lemma sonin_alg:
  fixes a b c x D N :: real
  assumes "0 < x" "0 < D" "D = 4 * N - x" "c = - (D / (4 * x)) * a"
  shows "2 * (a * b) + (2 * (b * c) * (4 * x / D) + b * b * (16 * N / (D * D)))
         = 16 * N * (b * b) / (D * D)"
proof -
  have "2 * (b * c) * (4 * x / D) = - 2 * (a * b)"
    unfolding assms(4) using assms(1,2) by (simp add: field_simps)
  then show ?thesis by simp
qed

lemma sonin_deriv:
  assumes "0 < x" "x < 4 * (real q + 1)"
  shows "(sonin q has_real_derivative
           16 * (real q + 1) * (ru1 0 q x * ru1 0 q x)
             / ((4 * (real q + 1) - x) * (4 * (real q + 1) - x))) (at x)"
proof -
  define D where "D = 4 * (real q + 1) - x"
  have D: "0 < D" using assms by (simp add: D_def)
  have r: "((\<lambda>y. 4 * y / (4 * (real q + 1) - y)) has_real_derivative
              16 * (real q + 1) / (D * D)) (at x)"
    using D unfolding D_def
    by (auto intro!: derivative_eq_intros simp: field_simps)
  have "(sonin q has_real_derivative
          2 * (ru 0 q x * ru1 0 q x)
          + (2 * (ru1 0 q x * ru2 0 q x) * (4 * x / D)
             + ru1 0 q x * ru1 0 q x * (16 * (real q + 1) / (D * D)))) (at x)"
    unfolding sonin_def[abs_def]
    apply (rule DERIV_add[THEN DERIV_cong])
      apply (rule DERIV_mult[OF ru_deriv ru_deriv])
     apply (rule DERIV_mult[OF _ r])
     apply (rule DERIV_mult[OF ru1_deriv ru1_deriv])
    apply (simp add: D_def algebra_simps)
    done
  then show ?thesis
    using sonin_alg[OF assms(1) D D_def ru2_l0[OF assms(1), of q, folded D_def]]
    unfolding D_def by simp
qed

lemma sonin_mono:
  assumes "0 < a" "a \<le> b" "b < 4 * (real q + 1)"
  shows "sonin q a \<le> sonin q b"
proof (rule DERIV_nonneg_imp_nondecreasing[OF assms(2)])
  fix x assume x: "a \<le> x" "x \<le> b"
  have x0: "0 < x" and x4: "x < 4 * (real q + 1)" using x assms by linarith+
  have "0 \<le> 16 * (real q + 1) * (ru1 0 q x * ru1 0 q x)
             / ((4 * (real q + 1) - x) * (4 * (real q + 1) - x))"
    by (intro divide_nonneg_nonneg mult_nonneg_nonneg zero_le_square) (use x4 in simp_all)
  then show "\<exists>y. (sonin q has_real_derivative y) (at x) \<and> 0 \<le> y"
    using sonin_deriv[OF x0 x4] by blast
qed

lemma critical_compare:
  assumes "0 < a" "a \<le> b" "b < 4 * (real q + 1)"
    and "ru1 0 q a = 0" "ru1 0 q b = 0"
  shows "rP 0 q a \<le> rP 0 q b"
  using sonin_mono[OF assms(1-3)] assms(4,5) by (simp add: sonin_def rP_def)

lemma ru1_nonpos: "rf1 l q x - rf l q x / 2 \<le> 0 \<Longrightarrow> ru1 l q x \<le> 0"
  unfolding ru1_def by (simp add: mult_le_0_iff)

lemma ru1_nonneg: "0 \<le> rf1 l q x - rf l q x / 2 \<Longrightarrow> 0 \<le> ru1 l q x"
  unfolding ru1_def by simp

lemma ru1_continuous: "continuous_on S (ru1 l q)"
  by (rule DERIV_continuous_on) (rule DERIV_subset[OF ru1_deriv], simp)

lemma ru1_root_up:
  assumes "a \<le> b" "rf1 l q a - rf l q a / 2 \<le> 0" "0 \<le> rf1 l q b - rf l q b / 2"
  shows "\<exists>c. a \<le> c \<and> c \<le> b \<and> ru1 l q c = 0"
  using IVT'[of "ru1 l q" a 0 b] ru1_nonpos[OF assms(2)] ru1_nonneg[OF assms(3)]
    assms(1) ru1_continuous by blast

lemma ru1_root_down:
  assumes "a \<le> b" "0 \<le> rf1 l q a - rf l q a / 2" "rf1 l q b - rf l q b / 2 \<le> 0"
  shows "\<exists>c. a \<le> c \<and> c \<le> b \<and> ru1 l q c = 0"
  using IVT2'[of "ru1 l q" b 0 a] ru1_nonpos[OF assms(3)] ru1_nonneg[OF assms(2)]
    assms(1) ru1_continuous by blast

lemma crit0: "ru1 0 0 2 = 0"
  by (simp add: ru1_def rf_def rf1_def)

lemma crit1: "\<exists>c. 5 \<le> c \<and> c \<le> 6 \<and> ru1 0 (Suc 0) c = 0"
  by (rule ru1_root_up) (simp_all add: rf_def rf1_def)

lemma crit2: "\<exists>c. 8 \<le> c \<and> c \<le> 9 \<and> ru1 0 2 c = 0"
  by (rule ru1_root_down) (simp_all add: rf_def rf1_def eval_nat_numeral)

lemma crit3: "\<exists>c. 12 \<le> c \<and> c \<le> 13 \<and> ru1 0 3 c = 0"
  by (rule ru1_root_up) (simp_all add: rf_def rf1_def eval_nat_numeral)

lemma crit4: "\<exists>c. 15 \<le> c \<and> c \<le> 16 \<and> ru1 0 4 c = 0"
  by (rule ru1_root_down) (simp_all add: rf_def rf1_def eval_nat_numeral)

lemma crit5: "\<exists>c. 19 \<le> c \<and> c \<le> 20 \<and> ru1 0 5 c = 0"
  by (rule ru1_root_up) (simp_all add: rf_def rf1_def eval_nat_numeral)

lemma crit6: "\<exists>c. 23 \<le> c \<and> c \<le> 24 \<and> ru1 0 6 c = 0"
  by (rule ru1_root_down) (simp_all add: rf_def rf1_def eval_nat_numeral)

subsection \<open>The density stays below the rejection bound\<close>

lemma crit_exists:
  assumes "q \<le> 6"
  shows "\<exists>c. 1 \<le> c \<and> c < 4 * (real q + 1) \<and> c < 3 * (real q + 1) + 4 \<and> ru1 0 q c = 0"
proof -
  from assms consider "q = 0" | "q = Suc 0" | "q = 2" | "q = 3" | "q = 4" | "q = 5" | "q = 6"
    by linarith
  then show ?thesis
  proof cases
    case 1
    have "(1::real) \<le> 2 \<and> (2::real) < 4 * (real q + 1) \<and> (2::real) < 3 * (real q + 1) + 4
          \<and> ru1 0 q 2 = 0"
      using crit0 1 by simp
    then show ?thesis by blast
  next
    case 2
    obtain c where "5 \<le> c" "c \<le> 6" "ru1 0 (Suc 0) c = 0" using crit1 by blast
    then have "1 \<le> c \<and> c < 4 * (real q + 1) \<and> c < 3 * (real q + 1) + 4 \<and> ru1 0 q c = 0"
      using 2 by simp
    then show ?thesis by blast
  next
    case 3
    obtain c where "8 \<le> c" "c \<le> 9" "ru1 0 2 c = 0" using crit2 by blast
    then have "1 \<le> c \<and> c < 4 * (real q + 1) \<and> c < 3 * (real q + 1) + 4 \<and> ru1 0 q c = 0"
      using 3 by simp
    then show ?thesis by blast
  next
    case 4
    obtain c where "12 \<le> c" "c \<le> 13" "ru1 0 3 c = 0" using crit3 by blast
    then have "1 \<le> c \<and> c < 4 * (real q + 1) \<and> c < 3 * (real q + 1) + 4 \<and> ru1 0 q c = 0"
      using 4 by simp
    then show ?thesis by blast
  next
    case 5
    obtain c where "15 \<le> c" "c \<le> 16" "ru1 0 4 c = 0" using crit4 by blast
    then have "1 \<le> c \<and> c < 4 * (real q + 1) \<and> c < 3 * (real q + 1) + 4 \<and> ru1 0 q c = 0"
      using 5 by simp
    then show ?thesis by blast
  next
    case 6
    obtain c where "19 \<le> c" "c \<le> 20" "ru1 0 5 c = 0" using crit5 by blast
    then have "1 \<le> c \<and> c < 4 * (real q + 1) \<and> c < 3 * (real q + 1) + 4 \<and> ru1 0 q c = 0"
      using 6 by simp
    then show ?thesis by blast
  next
    case 7
    obtain c where "23 \<le> c" "c \<le> 24" "ru1 0 6 c = 0" using crit6 by blast
    then have "1 \<le> c \<and> c < 4 * (real q + 1) \<and> c < 3 * (real q + 1) + 4 \<and> ru1 0 q c = 0"
      using 7 by simp
    then show ?thesis by blast
  qed
qed

lemma step_small:
  fixes R w :: real
  assumes "0 < R" "R \<le> 25" "0 \<le> w" "w \<le> 112 / 15"
  shows "w * (R / 400 * (R / 400)) \<le> 1 / 21"
proof -
  have a: "R / 400 * (R / 400) \<le> 1 / 16 * (1 / 16)"
    using assms(1,2) by (intro mult_mono) simp_all
  have b: "0 \<le> R / 400 * (R / 400)" by simp
  have c: "(0::real) \<le> 112 / 15" by simp
  have "w * (R / 400 * (R / 400)) \<le> 112 / 15 * (1 / 16 * (1 / 16))"
    by (rule mult_mono[OF assms(4) a c b])
  also have "\<dots> \<le> (1::real) / 21" by simp
  finally show ?thesis .
qed

lemma rP_zero: "rP l q 0 = 0"
  by (simp add: rP_def ru_def rf_def)

lemma rP_max_bound:
  assumes n: "1 \<le> n" "n \<le> 7" and l: "0 \<le> l" "l < n"
    and R: "R = 3 * real_of_int n + 4"
    and mx: "\<forall>y. 0 \<le> y \<and> y \<le> R \<longrightarrow> rP (nat l) (nat (n - l - 1)) y \<le> rP (nat l) (nat (n - l - 1)) m"
    and m: "0 \<le> m" "m \<le> R"
  shows "rP (nat l) (nat (n - l - 1)) m \<le> probMax_grid n l R * 1.05"
proof -
  let ?L = "nat l" and ?q = "nat (n - l - 1)"
  have G0: "0 \<le> probMax_grid n l R" by (rule probMax_grid_nonneg)
  have GG: "probMax_grid n l R \<le> probMax_grid n l R * 1.05" using G0 by simp
  have Rpos: "0 < R" and R25: "R \<le> 25" using n unfolding R by simp_all
  have nq: "real ?q + real ?L + 1 = real_of_int n" using l by simp
  have q7: "real ?q + real ?L + 1 \<le> 7" unfolding nq using n by simp
  consider "m = 0" | "m = R" | "0 < m" "m < R" using m by linarith
  then show ?thesis
  proof cases
    case 1
    then show ?thesis using rP_zero GG G0 by simp
  next
    case 2
    have "rP ?L ?q R = radialProbability n l (real 200 / 200 * R)"
      using radialProbability_rP[OF l] by simp
    also have "\<dots> \<le> probMax_grid n l R" by (rule probMax_grid_ge) simp
    finally show ?thesis using GG 2 by simp
  next
    case 3
    show ?thesis
    proof (cases "1 \<le> l")
      case True
      then have L1: "1 \<le> ?L" by simp
      show ?thesis
      proof (rule max_vs_grid[OF l R mx 3, of "49 / 8"])
        show "(0::real) \<le> 49 / 8" by simp
        show "\<forall>t. 0 < t \<and> \<bar>t - m\<bar> \<le> R / 400 \<longrightarrow> rQ ?L ?q t \<le> 49 / 8 * (t * t)"
          using rQ_bound_l_pos[OF L1 q7] by blast
        show "49 / 8 * (R / 400 * (R / 400)) \<le> 1 / 21"
          by (rule step_small[OF Rpos R25]) simp_all
      qed
    next
      case False
      then have l0: "l = 0" using l by simp
      have q6: "real ?q + 1 \<le> 7" using q7 l0 by simp
      have big: "rP ?L ?q c \<le> probMax_grid n l R * 1.05"
        if c: "1 \<le> c" "c < R"
          and cm: "\<forall>y. 0 \<le> y \<and> y \<le> R \<longrightarrow> rP ?L ?q y \<le> rP ?L ?q c" for c
      proof (rule max_vs_grid[OF l R cm _ c(2), of "112 / 15"])
        show "0 < c" using c by linarith
        show "(0::real) \<le> 112 / 15" by simp
        show "\<forall>t. 0 < t \<and> \<bar>t - c\<bar> \<le> R / 400 \<longrightarrow> rQ ?L ?q t \<le> 112 / 15 * (t * t)"
        proof (intro allI impI)
          fix t assume t: "0 < t \<and> \<bar>t - c\<bar> \<le> R / 400"
          have "R / 400 \<le> 1 / 16" using R25 by simp
          moreover have "c - t \<le> \<bar>t - c\<bar>" by simp
          ultimately have "15 / 16 \<le> t" using t c(1) by linarith
          then show "rQ ?L ?q t \<le> 112 / 15 * (t * t)"
            using rQ_bound_l0[OF q6] l0 by simp
        qed
        show "112 / 15 * (R / 400 * (R / 400)) \<le> 1 / 21"
          by (rule step_small[OF Rpos R25]) simp_all
      qed
      show ?thesis
      proof (cases "1 \<le> m")
        case True
        then show ?thesis using big[OF True 3(2) mx] by simp
      next
        case False
        have "rP1 ?L ?q m = 0" by (rule interior_max_critical[OF mx 3])
        then have "ru ?L ?q m = 0 \<or> ru1 ?L ?q m = 0" by (simp add: rP1_def)
        then show ?thesis
        proof
          assume "ru ?L ?q m = 0"
          then have "rP ?L ?q m = 0" by (simp add: rP_def)
          then show ?thesis using G0 by simp
        next
          assume z: "ru1 ?L ?q m = 0"
          have "?q \<le> 6" using q6 by simp
          then obtain c where c: "1 \<le> c" "c < 4 * (real ?q + 1)"
              "c < 3 * (real ?q + 1) + 4" "ru1 0 ?q c = 0"
            using crit_exists by blast
          have cR: "c < R" using c(3) nq l0 unfolding R by simp
          have mc: "m \<le> c" using False c(1) by linarith
          have le: "rP 0 ?q m \<le> rP 0 ?q c"
            using critical_compare[OF 3(1) mc c(2) _ c(4)] z l0 by simp
          have cm: "\<forall>y. 0 \<le> y \<and> y \<le> R \<longrightarrow> rP ?L ?q y \<le> rP ?L ?q c"
            using mx le l0 by force
          have "rP ?L ?q c \<le> probMax_grid n l R * 1.05" by (rule big[OF c(1) cR cm])
          then show ?thesis using le l0 by simp
        qed
      qed
    qed
  qed
qed

lemma radialProbability_le_probMax:
  assumes "1 \<le> n" "n \<le> 7" "0 \<le> l" "l < n"
    and "0 \<le> x" "x \<le> 3 * real_of_int n + 4"
  shows "radialProbability n l x \<le> probMax_grid n l (3 * real_of_int n + 4) * 1.05"
proof -
  have R0: "0 \<le> 3 * real_of_int n + 4" using assms(1) by simp
  obtain m where m: "0 \<le> m" "m \<le> 3 * real_of_int n + 4"
    and mx: "\<forall>y. 0 \<le> y \<and> y \<le> 3 * real_of_int n + 4
               \<longrightarrow> rP (nat l) (nat (n - l - 1)) y \<le> rP (nat l) (nat (n - l - 1)) m"
    using rP_attains_max[OF R0] by blast
  have "radialProbability n l x = rP (nat l) (nat (n - l - 1)) x"
    by (rule radialProbability_rP[OF assms(3,4)])
  also have "\<dots> \<le> rP (nat l) (nat (n - l - 1)) m" using mx assms(5,6) by blast
  also have "\<dots> \<le> probMax_grid n l (3 * real_of_int n + 4) * 1.05"
    by (rule rP_max_bound[OF assms(1-4) refl mx m])
  finally show ?thesis .
qed

subsection \<open>The rejection loop\<close>

lemma Max_insert_max:
  fixes a b :: real
  assumes "finite S"
  shows "Max (insert (if b > a then b else a) S) = Max (insert a (insert b S))"
proof (cases "S = {}")
  case True
  then show ?thesis by (simp add: max_def)
next
  case False
  then show ?thesis using assms by (simp add: max_def)
qed

lemma fold_max_eq:
  "fold (\<lambda>i pm. if f i > pm then f i else pm) xs (a::real) = Max (insert a (f ` set xs))"
proof (induction xs arbitrary: a)
  case Nil
  show ?case by simp
next
  case (Cons x xs)
  have "fold (\<lambda>i pm. if f i > pm then f i else pm) (x # xs) a
        = Max (insert (if f x > a then f x else a) (f ` set xs))"
    using Cons.IH by simp
  also have "\<dots> = Max (insert a (insert (f x) (f ` set xs)))"
    by (rule Max_insert_max) simp
  finally show ?case by simp
qed

lemma radialProbability_zero: "radialProbability n l 0 = 0"
  by (simp add: radialProbability_def Let_def)

lemma radialProbability_nonneg: "0 \<le> radialProbability n l x"
proof -
  have "radialProbability n l x
        = (x * ((x powi l) * laguerreL (n - l - 1) (real_of_int (2 * l + 1)) x * exp (- x / 2)))\<^sup>2"
    unfolding radialProbability_def Let_def power2_eq_square by (simp add: algebra_simps)
  then show ?thesis by simp
qed

lemma probMax_grid_Max:
  "probMax_grid n l R = Max ((\<lambda>i. radialProbability n l (real i / 200 * R)) ` {0..200})"
proof -
  let ?f = "\<lambda>i::nat. radialProbability n l (real i / 200 * R)"
  have "set [0..<Suc 200] = {0..200::nat}"
    by (simp only: set_upt atLeastLessThanSuc_atLeastAtMost)
  then have s: "set [0..<201] = {0..200::nat}" by simp
  have z: "?f 0 = 0" by (simp add: radialProbability_zero)
  have "(0::nat) \<in> {0..200}" by simp
  then have "?f 0 \<in> ?f ` {0..200}" by (rule imageI)
  then have "0 \<in> ?f ` {0..200}" unfolding z .
  then have i: "insert 0 (?f ` {0..200}) = ?f ` {0..200}" by (rule insert_absorb)
  have "probMax_grid n l R = Max (insert 0 (?f ` set [0..<201]))"
    unfolding probMax_grid_def Let_def by (rule fold_max_eq)
  then show ?thesis unfolding s i .
qed

lemma radialScale_nonneg: "1 \<le> n \<Longrightarrow> 0 \<le> radialScale n"
  by (simp add: radialScale_def)

lemma radius_attempt_range:
  assumes n: "1 \<le> n" and R: "0 \<le> R" and rm: "0 \<le> rhoMax"
    and bound: "\<forall>x. 0 \<le> x \<and> x \<le> rhoMax \<longrightarrow> radialProbability n l x \<le> probMax"
    and rnd: "\<forall>i. 0 \<le> rnd i \<and> rnd i < 1"
    and acc: "radius_attempt n l R rhoMax probMax rnd k = Some s"
  shows "0 \<le> rs_r s \<and> 0 \<le> radialDensity s \<and> radialDensity s \<le> 1"
proof -
  define rho where "rho = rnd k * rhoMax"
  define prob where "prob = radialProbability n l rho"
  have r0: "0 \<le> rnd k" and r1: "rnd k \<le> 1" and u0: "0 \<le> rnd (k + 1)"
    using rnd by (simp_all add: less_imp_le)
  have rho0: "0 \<le> rho" unfolding rho_def using r0 rm by simp
  have "rnd k * rhoMax \<le> 1 * rhoMax" using r1 rm by (rule mult_right_mono)
  then have rhoM: "rho \<le> rhoMax" unfolding rho_def by simp
  have p0: "0 \<le> prob" unfolding prob_def by (rule radialProbability_nonneg)
  have pM: "prob \<le> probMax" unfolding prob_def using bound rho0 rhoM by blast
  have t: "rnd (k + 1) * probMax < prob"
    and s: "s = \<lparr>rs_r = rho * R / (2 * real_of_int n), radialDensity = prob / probMax\<rparr>"
    using acc unfolding radius_attempt_def Let_def rho_def prob_def
    by (simp_all split: if_splits)
  have M0: "0 \<le> probMax" using p0 pM by linarith
  have "probMax \<noteq> 0" using t pM by auto
  then have Mpos: "0 < probMax" using M0 by linarith
  have "0 \<le> rho * R / (2 * real_of_int n)" using rho0 R n by simp
  moreover have "0 \<le> prob / probMax" using p0 M0 by simp
  moreover have "prob / probMax \<le> 1" using pM Mpos by simp
  ultimately show ?thesis unfolding s by simp
qed

lemma radius_attempts_some:
  assumes n: "1 \<le> n" and R: "0 \<le> R" and rm: "0 \<le> rhoMax"
    and bound: "\<forall>x. 0 \<le> x \<and> x \<le> rhoMax \<longrightarrow> radialProbability n l x \<le> probMax"
    and rnd: "\<forall>i. 0 \<le> rnd i \<and> rnd i < 1"
  shows "radius_attempts m n l R rhoMax probMax rnd k = (Some s, k')
         \<Longrightarrow> k' \<le> k + 2 * m \<and> 0 \<le> rs_r s \<and> 0 \<le> radialDensity s \<and> radialDensity s \<le> 1"
proof (induction m arbitrary: k)
  case 0
  then show ?case by simp
next
  case (Suc m)
  show ?case
  proof (cases "radius_attempt n l R rhoMax probMax rnd k")
    case None
    then have "radius_attempts m n l R rhoMax probMax rnd (k + 2) = (Some s, k')"
      using Suc.prems by simp
    then have "k' \<le> k + 2 + 2 * m \<and> 0 \<le> rs_r s \<and> 0 \<le> radialDensity s \<and> radialDensity s \<le> 1"
      by (rule Suc.IH)
    then show ?thesis by simp
  next
    case (Some s')
    then have e: "s' = s" "k' = k + 2" using Suc.prems by simp_all
    show ?thesis using radius_attempt_range[OF n R rm bound rnd Some] e by simp
  qed
qed

lemma radius_attempts_none:
  "radius_attempts m n l R rhoMax probMax rnd k = (None, k') \<Longrightarrow> k' = k + 2 * m"
proof (induction m arbitrary: k)
  case 0
  then show ?case by simp
next
  case (Suc m)
  show ?case
  proof (cases "radius_attempt n l R rhoMax probMax rnd k")
    case None
    then have "radius_attempts m n l R rhoMax probMax rnd (k + 2) = (None, k')"
      using Suc.prems by simp
    then have "k' = k + 2 + 2 * m" by (rule Suc.IH)
    then show ?thesis by simp
  next
    case (Some s')
    then show ?thesis using Suc.prems by simp
  qed
qed

text \<open>Claim C3. For every \<open>n\<close> from 1 to 7 and every \<open>l\<close> with \<open>0 \<le> l < n\<close>, and for
  every sequence of draws in \<open>[0, 1)\<close>, sampleRadius runs at most 500 rejection attempts
  (two draws each) and returns \<open>r \<ge> 0\<close> and a \<open>radialDensity\<close> between 0 and 1. The
  rejection bound is 1.05 times the maximum of the density over the 201 grid points of
  \<open>[0, 3n + 4]\<close>, and when all 500 attempts are rejected the result is the fixed
  \<open>r = 0.5 \<cdot> radialScale n\<close> with density 0.3. Numbers are real numbers here, not
  doubles.\<close>

theorem sampleRadius_bounded:
  assumes "1 \<le> n" and "n \<le> 7" and "0 \<le> l" and "l < n"
    and "\<forall>i. 0 \<le> rnd i \<and> rnd i < 1"
  shows "sampleRadius n l rnd k =
           (case radius_attempts 500 n l (radialScale n) (3 * real_of_int n + 4)
                   (Max ((\<lambda>i. radialProbability n l (real i / 200 * (3 * real_of_int n + 4)))
                           ` {0..200}) * 1.05) rnd k of
              (Some s, k') \<Rightarrow> (s, k')
            | (None, k') \<Rightarrow> (\<lparr>rs_r = radialScale n * 0.5, radialDensity = 0.3\<rparr>, k'))
         \<and> snd (sampleRadius n l rnd k) \<le> k + 2 * 500
         \<and> 0 \<le> rs_r (fst (sampleRadius n l rnd k))
         \<and> 0 \<le> radialDensity (fst (sampleRadius n l rnd k))
         \<and> radialDensity (fst (sampleRadius n l rnd k)) \<le> 1"
proof -
  let ?R = "radialScale n" and ?rm = "3 * real_of_int n + 4"
  let ?pm = "probMax_grid n l ?rm * 1.05"
  have R0: "0 \<le> ?R" by (rule radialScale_nonneg[OF assms(1)])
  have rm0: "0 \<le> ?rm" using assms(1) by simp
  have bound: "\<forall>x. 0 \<le> x \<and> x \<le> ?rm \<longrightarrow> radialProbability n l x \<le> ?pm"
    using radialProbability_le_probMax[OF assms(1-4)] by blast
  have first: "sampleRadius n l rnd k =
           (case radius_attempts 500 n l ?R ?rm
                   (Max ((\<lambda>i. radialProbability n l (real i / 200 * ?rm)) ` {0..200}) * 1.05) rnd k of
              (Some s, k') \<Rightarrow> (s, k')
            | (None, k') \<Rightarrow> (\<lparr>rs_r = ?R * 0.5, radialDensity = 0.3\<rparr>, k'))"
    unfolding sampleRadius_def Let_def probMax_grid_Max by (rule refl)
  obtain r k' where res: "radius_attempts 500 n l ?R ?rm ?pm rnd k = (r, k')"
    by (cases "radius_attempts 500 n l ?R ?rm ?pm rnd k")
  have rest: "snd (sampleRadius n l rnd k) \<le> k + 2 * 500
         \<and> 0 \<le> rs_r (fst (sampleRadius n l rnd k))
         \<and> 0 \<le> radialDensity (fst (sampleRadius n l rnd k))
         \<and> radialDensity (fst (sampleRadius n l rnd k)) \<le> 1"
  proof (cases r)
    case None
    have "k' = k + 2 * 500" using radius_attempts_none res None by blast
    moreover have "sampleRadius n l rnd k = (\<lparr>rs_r = ?R * 0.5, radialDensity = 0.3\<rparr>, k')"
      unfolding sampleRadius_def Let_def res None by simp
    ultimately show ?thesis using R0 by simp
  next
    case (Some s)
    have "k' \<le> k + 2 * 500 \<and> 0 \<le> rs_r s \<and> 0 \<le> radialDensity s \<and> radialDensity s \<le> 1"
      by (rule radius_attempts_some[OF assms(1) R0 rm0 bound assms(5)]) (use res Some in simp)
    moreover have "sampleRadius n l rnd k = (s, k')"
      unfolding sampleRadius_def Let_def res Some by simp
    ultimately show ?thesis by simp
  qed
  show ?thesis using first rest by blast
qed

text \<open>The theorem at \<open>n = 1\<close>, \<open>l = 0\<close> and the draws \<open>rnd_a\<close>.\<close>

theorem sampleRadius_bounded_witness:
  "(1::int) \<le> 1 \<and> (1::int) \<le> 7 \<and> (0::int) \<le> 0 \<and> (0::int) < 1
   \<and> (\<forall>i. 0 \<le> rnd_a i \<and> rnd_a i < 1)
   \<and> sampleRadius 1 0 rnd_a 0 =
           (case radius_attempts 500 1 0 (radialScale 1) (3 * real_of_int 1 + 4)
                   (Max ((\<lambda>i. radialProbability 1 0 (real i / 200 * (3 * real_of_int 1 + 4)))
                           ` {0..200}) * 1.05) rnd_a 0 of
              (Some s, k') \<Rightarrow> (s, k')
            | (None, k') \<Rightarrow> (\<lparr>rs_r = radialScale 1 * 0.5, radialDensity = 0.3\<rparr>, k'))
   \<and> snd (sampleRadius 1 0 rnd_a 0) \<le> 0 + 2 * 500
   \<and> 0 \<le> rs_r (fst (sampleRadius 1 0 rnd_a 0))
   \<and> 0 \<le> radialDensity (fst (sampleRadius 1 0 rnd_a 0))
   \<and> radialDensity (fst (sampleRadius 1 0 rnd_a 0)) \<le> 1"
proof -
  have h: "(1::int) \<le> 1" "(1::int) \<le> 7" "(0::int) \<le> 0" "(0::int) < 1" by simp_all
  have r: "\<forall>i. 0 \<le> rnd_a i \<and> rnd_a i < 1" by (simp add: rnd_a_def)
  show ?thesis using sampleRadius_bounded[OF h r, where k = 0] h r by blast
qed

subsection \<open>The number of samples\<close>

lemma sample_loop_length:
  "length (fst (sample_loop i count n l ml rnd k results)) = length results + nat (count - i)"
proof (induction i count n l ml rnd k results rule: sample_loop.induct)
  case (1 i count n l ml rnd k results)
  show ?case
  proof (cases "i < count")
    case True
    obtain sample k' where s: "sampleOne n l ml rnd k = (sample, k')"
      by (cases "sampleOne n l ml rnd k")
    have "nat (count - i) = Suc (nat (count - (i + 1)))" using True by simp
    then show ?thesis
      using True s "1.IH"[OF True s[symmetric]]
      by (subst sample_loop.simps) simp
  next
    case False
    then show ?thesis by (subst sample_loop.simps) simp
  qed
qed

lemma sampleOrbitalPositions_length:
  "length (fst (sampleOrbitalPositions n l ml count rnd k)) = nat count"
  by (simp add: sampleOrbitalPositions_def sample_loop_length)

subsection \<open>Exhausted angular loops\<close>

lemma p_attempt_half:
  assumes "rnd k = 1/2" and "rnd (k + 1) = 1/2" and "rnd (k + 2) = 1/2"
  shows "p_attempt 0 rnd k = None"
  unfolding p_attempt_def Let_def assms by (simp add: sphereDirection_def p_angularVal_def)

lemma p_attempts_half:
  "(\<forall>j. k \<le> j \<and> j < k + 3 * m \<longrightarrow> rnd j = 1/2) \<Longrightarrow> p_attempts m 0 rnd k = (None, k + 3 * m)"
proof (induction m arbitrary: k)
  case 0
  then show ?case by simp
next
  case (Suc m)
  have "p_attempt 0 rnd k = None"
    using Suc.prems by (intro p_attempt_half) simp_all
  moreover have "p_attempts m 0 rnd (k + 3) = (None, k + 3 + 3 * m)"
    using Suc.prems by (intro Suc.IH) simp
  ultimately show ?case by simp
qed

lemma radialProbability_2_1_5: "0 < radialProbability 2 1 5"
  by (simp add: radialProbability_def laguerreL_def Let_def)

lemma sampleRadius_accept_first:
  assumes "rnd k = 1/2" and "rnd (k + 1) = 0"
  shows "\<exists>d. sampleRadius 2 1 rnd k = (\<lparr>rs_r = 5.625, radialDensity = d\<rparr>, k + 2)"
proof -
  have a: "radius_attempt 2 1 (radialScale 2) (3 * real_of_int 2 + 4)
             (probMax_grid 2 1 (3 * real_of_int 2 + 4) * 1.05) rnd k
           = Some \<lparr>rs_r = 5.625,
                    radialDensity = radialProbability 2 1 5
                                    / (probMax_grid 2 1 (3 * real_of_int 2 + 4) * 1.05)\<rparr>"
    unfolding radius_attempt_def Let_def assms
    using radialProbability_2_1_5 by (simp add: radialScale_def)
  have "radius_attempts (Suc 499) 2 1 (radialScale 2) (3 * real_of_int 2 + 4)
             (probMax_grid 2 1 (3 * real_of_int 2 + 4) * 1.05) rnd k
        = (Some \<lparr>rs_r = 5.625,
                    radialDensity = radialProbability 2 1 5
                                    / (probMax_grid 2 1 (3 * real_of_int 2 + 4) * 1.05)\<rparr>, k + 2)"
    by (simp only: radius_attempts.simps a option.case)
  then show ?thesis
    by (simp add: sampleRadius_def Let_def)
qed

lemma samplePOrbital_rnd_a: "pos (fst (samplePOrbital 2 0 rnd_a 0)) = (0, - 5.625, 0)"
proof -
  obtain d where s: "sampleRadius 2 1 rnd_a 0 = (\<lparr>rs_r = 5.625, radialDensity = d\<rparr>, 2)"
    using sampleRadius_accept_first[of rnd_a 0] by (auto simp: rnd_a_def)
  have p: "p_attempts 500 0 rnd_a 2 = (None, 2 + 3 * 500)"
    by (rule p_attempts_half) (simp add: rnd_a_def)
  show ?thesis
    using s p by (simp add: samplePOrbital_def Let_def rnd_a_def)
qed

lemma samplePOrbital_rnd_b: "pos (fst (samplePOrbital 2 0 rnd_b 0)) = (0, 5.625, 0)"
proof -
  obtain d where s: "sampleRadius 2 1 rnd_b 0 = (\<lparr>rs_r = 5.625, radialDensity = d\<rparr>, 2)"
    using sampleRadius_accept_first[of rnd_b 0] by (auto simp: rnd_b_def)
  have p: "p_attempts 500 0 rnd_b 2 = (None, 2 + 3 * 500)"
    by (rule p_attempts_half) (simp add: rnd_b_def)
  show ?thesis
    using s p by (simp add: samplePOrbital_def Let_def rnd_b_def)
qed

subsection \<open>The largest angular values\<close>

text \<open>The angular value of \<open>d\<close> with \<open>m\<^sub>l = 0\<close> and with \<open>m\<^sub>l = 2\<close> is at most 1, and
  that of \<open>f\<close> with \<open>m\<^sub>l = 0\<close> at most 0.4; these values are reached on the y axis
  (\<open>m\<^sub>l = 0\<close>) and on the diagonal of the xz plane (\<open>m\<^sub>l = 2\<close>). The angular value
  of p is at most 1 on the unit sphere.\<close>

lemma p_angularVal_le:
  assumes "x * x + y * y + z * z = 1"
  shows "p_angularVal ml (x, y, z) \<le> 1"
proof -
  have "0 \<le> x * x" "0 \<le> y * y" "0 \<le> z * z" by simp_all
  then have "x * x \<le> 1 \<and> y * y \<le> 1 \<and> z * z \<le> 1" using assms by linarith
  then show ?thesis by (simp add: p_angularVal_def)
qed

lemma sin2T_eq:
  fixes c :: real
  assumes "- 1 \<le> c" and "c \<le> 1"
  shows "sqrt (1 - c * c) * sqrt (1 - c * c) = 1 - c * c"
    and "0 \<le> 1 - c * c" and "1 - c * c \<le> 1"
proof -
  have "\<bar>c\<bar> \<le> 1" using assms by (simp add: abs_le_iff)
  then have "\<bar>c\<bar> * \<bar>c\<bar> \<le> 1 * 1" by (intro mult_mono) simp_all
  then have "c * c \<le> 1" by simp
  then show "0 \<le> 1 - c * c" by simp
  then show "sqrt (1 - c * c) * sqrt (1 - c * c) = 1 - c * c" by simp
  show "1 - c * c \<le> 1" by simp
qed

lemma d_angularVal_0_le:
  assumes "- 1 \<le> c" and "c \<le> 1"
  shows "d_angularVal 0 phi c \<le> 1"
proof -
  have t: "0 \<le> 1 - c * c" by (rule sin2T_eq(2)[OF assms])
  have "0 \<le> c * c" by simp
  then have "\<bar>3 * (c * c) - 1\<bar> \<le> 2" using t unfolding abs_le_iff by linarith
  then have "(3 * (c * c) - 1)\<^sup>2 \<le> (2::real)\<^sup>2"
    by (subst power2_le_iff_abs_le) simp_all
  then show ?thesis by (simp add: d_angularVal_def Let_def)
qed

lemma d_angularVal_0_pole: "c = 1 \<or> c = - 1 \<Longrightarrow> d_angularVal 0 phi c = 1"
  by (auto simp: d_angularVal_def Let_def)

lemma d_angularVal_2_le:
  assumes "- 1 \<le> c" and "c \<le> 1"
  shows "d_angularVal 2 phi c \<le> 1"
proof -
  define t where "t = 1 - c * c"
  have t: "0 \<le> t" "t \<le> 1" unfolding t_def by (rule sin2T_eq[OF assms])+
  have s: "sqrt (1 - c * c) * sqrt (1 - c * c) = t" unfolding t_def by (rule sin2T_eq(1)[OF assms])
  have tt: "t * t \<le> 1 * 1" using t by (intro mult_mono) simp_all
  have "\<bar>sin (2 * phi)\<bar> * \<bar>sin (2 * phi)\<bar> \<le> 1 * 1" by (intro mult_mono) simp_all
  then have ss: "sin (2 * phi) * sin (2 * phi) \<le> 1" by simp
  have "(t * t) * (sin (2 * phi) * sin (2 * phi)) \<le> 1 * 1"
    using tt ss t by (intro mult_mono) simp_all
  moreover have "d_angularVal 2 phi c = (t * t) * (sin (2 * phi) * sin (2 * phi))"
    unfolding d_angularVal_def Let_def s by simp
  ultimately show ?thesis by simp
qed

lemma d_angularVal_2_diag: "d_angularVal 2 (pi / 4) 0 = 1" "d_angularVal 2 (pi + pi / 4) 0 = 1"
proof -
  show "d_angularVal 2 (pi / 4) 0 = 1" by (simp add: d_angularVal_def Let_def)
  have "sin (2 * (pi + pi / 4)) = sin (pi / 2 + 2 * pi)" by (simp add: algebra_simps)
  also have "\<dots> = 1" by (simp only: sin_periodic sin_pi_half)
  finally show "d_angularVal 2 (pi + pi / 4) 0 = 1" by (simp add: d_angularVal_def Let_def)
qed

lemma f_angularVal_0_le:
  assumes "- 1 \<le> c" and "c \<le> 1"
  shows "f_angularVal 0 phi c \<le> 0.4"
proof -
  define t where "t = c * c"
  have t: "0 \<le> t" "0 \<le> 1 - t" unfolding t_def using sin2T_eq(2)[OF assms] by simp_all
  have "0 \<le> 25 * (t - 1 / 10)\<^sup>2 + 15 / 4" by simp
  then have "0 \<le> 25 * (t * t) - 5 * t + 4" by (simp add: power2_eq_square algebra_simps)
  then have "0 \<le> (1 - t) * (25 * (t * t) - 5 * t + 4)" using t by simp
  then have "t * ((5 * t - 3) * (5 * t - 3)) \<le> 4" by (simp add: algebra_simps)
  moreover have "f_angularVal 0 phi c = t * ((5 * t - 3) * (5 * t - 3)) * 0.1"
    unfolding f_angularVal_def Let_def t_def by (simp add: power2_eq_square algebra_simps)
  ultimately show ?thesis by simp
qed

lemma f_angularVal_0_pole: "c = 1 \<or> c = - 1 \<Longrightarrow> f_angularVal 0 phi c = 0.4"
  by (auto simp: f_angularVal_def Let_def)

lemma sqrt2_bounds: "0.999 \<le> 0.707 * sqrt 2" "0.707 * sqrt 2 \<le> 1"
proof -
  have "(1.414::real) \<le> sqrt 2" by (rule real_le_rsqrt) (simp add: power2_eq_square)
  then show "0.999 \<le> 0.707 * sqrt 2" by simp
  have "sqrt 2 \<le> (1.4143::real)" by (rule real_le_lsqrt) (simp_all add: power2_eq_square)
  then show "0.707 * sqrt 2 \<le> 1" by simp
qed

subsection \<open>Where the fallback branches place a sample\<close>

lemma sample_loop_members:
  "s \<in> set (fst (sample_loop i count n l ml rnd k results)) \<Longrightarrow>
   s \<in> set results \<or> (\<exists>k'. s = fst (sampleOne n l ml rnd k'))"
proof (induction i count n l ml rnd k results rule: sample_loop.induct)
  case (1 i count n l ml rnd k results)
  show ?case
  proof (cases "i < count")
    case True
    obtain sample k' where sk: "sampleOne n l ml rnd k = (sample, k')"
      by (cases "sampleOne n l ml rnd k")
    have "s \<in> set (fst (sample_loop (i + 1) count n l ml rnd k' (results @ [sample])))"
      using "1.prems" True sk by (subst (asm) sample_loop.simps) simp
    then have "s \<in> set (results @ [sample]) \<or> (\<exists>k'. s = fst (sampleOne n l ml rnd k'))"
      by (rule "1.IH"[OF True sk[symmetric]])
    moreover have "sample = fst (sampleOne n l ml rnd k)" using sk by simp
    ultimately show ?thesis by auto
  next
    case False
    then show ?thesis using "1.prems" by (subst (asm) sample_loop.simps) simp
  qed
qed

lemma unit_direction:
  fixes x y z :: real
  assumes "sqrt (x * x + y * y + z * z) \<noteq> 0"
  shows "x / sqrt (x * x + y * y + z * z) * (x / sqrt (x * x + y * y + z * z))
       + y / sqrt (x * x + y * y + z * z) * (y / sqrt (x * x + y * y + z * z))
       + z / sqrt (x * x + y * y + z * z) * (z / sqrt (x * x + y * y + z * z)) = 1"
proof -
  define len where "len = sqrt (x * x + y * y + z * z)"
  have nn: "0 \<le> x * x + y * y + z * z" by (intro add_nonneg_nonneg) simp_all
  have l2: "len * len = x * x + y * y + z * z" using nn by (simp add: len_def)
  have lnz: "len * len \<noteq> 0" using assms by (simp add: len_def)
  have "x / len * (x / len) + y / len * (y / len) + z / len * (z / len)
        = (x * x + y * y + z * z) / (len * len)"
    by (simp add: add_divide_distrib)
  also have "\<dots> = (len * len) / (len * len)" by (simp only: l2)
  also have "\<dots> = 1" using lnz by simp
  finally show ?thesis unfolding len_def .
qed

lemma axis_component:
  fixes a b sg len :: real
  assumes "sg * sg = 1" and "\<bar>a\<bar> \<le> 0.075" and "\<bar>b\<bar> \<le> 0.075"
    and "len * len = 1 + a * a + b * b"
  shows "0.98 \<le> sg / len * (sg / len)"
proof -
  have "\<bar>a\<bar> * \<bar>a\<bar> \<le> 0.075 * 0.075" using assms(2) by (intro mult_mono) simp_all
  then have a2: "a * a \<le> 0.075 * 0.075" by simp
  have "\<bar>b\<bar> * \<bar>b\<bar> \<le> 0.075 * 0.075" using assms(3) by (intro mult_mono) simp_all
  then have b2: "b * b \<le> 0.075 * 0.075" by simp
  have q: "0 < 1 + a * a + b * b" by (intro add_pos_nonneg) simp_all
  have "sg / len * (sg / len) = (sg * sg) / (len * len)" by simp
  also have "\<dots> = 1 / (1 + a * a + b * b)" by (simp only: assms(1,4))
  finally have e: "sg / len * (sg / len) = 1 / (1 + a * a + b * b)" .
  have u: "1 + a * a + b * b \<le> 1.01125" using a2 b2 by simp
  have "1 / 1.01125 \<le> 1 / (1 + a * a + b * b)"
    using u q by (intro divide_left_mono) simp_all
  moreover have "(0.98::real) \<le> 1 / 1.01125" by simp
  ultimately show ?thesis unfolding e by linarith
qed

lemma spread_bound:
  fixes u :: real
  assumes "0 \<le> u" and "u < 1"
  shows "\<bar>(u - 0.5) * 0.15\<bar> \<le> 0.075"
  using assms unfolding abs_le_iff by (simp add: field_simps)

lemma p_fallback:
  assumes draws: "\<forall>i. 0 \<le> rnd i \<and> rnd i < 1"
    and ex: "fst (p_attempts 500 ml rnd (snd (sampleRadius n 1 rnd k))) = None"
  shows "\<exists>dir \<in> peakDirections 1 ml.
            pos (fst (samplePOrbital n ml rnd k))
            = multiplyScalar dir (rs_r (fst (sampleRadius n 1 rnd k)))"
proof -
  obtain s k1 where sr: "sampleRadius n 1 rnd k = (s, k1)"
    by (cases "sampleRadius n 1 rnd k")
  obtain k2 where pa: "p_attempts 500 ml rnd k1 = (None, k2)"
    using ex sr by (cases "p_attempts 500 ml rnd k1") auto
  define sg :: real where "sg = (if rnd k2 < 0.5 then 1 else -1)"
  define a where "a = (rnd (k2 + 1) - 0.5) * 0.15"
  define b where "b = (rnd (k2 + 2) - 0.5) * 0.15"
  have sg2: "sg * sg = 1" by (simp add: sg_def)
  have ab: "\<bar>a\<bar> \<le> 0.075" "\<bar>b\<bar> \<le> 0.075"
    unfolding a_def b_def by (rule spread_bound; use draws in blast)+
  have q: "0 < 1 + a * a + b * b" by (intro add_pos_nonneg) simp_all
  define len where "len = sqrt (1 + a * a + b * b)"
  have lnz: "len \<noteq> 0" using q by (simp add: len_def)
  have l2: "len * len = 1 + a * a + b * b" using q by (simp add: len_def)
  have ax: "0.98 \<le> sg / len * (sg / len)" by (rule axis_component[OF sg2 ab l2])
  have l0: "sqrt (a * a + sg * sg + b * b) = len" by (simp add: sg2 len_def algebra_simps)
  have l1: "sqrt (sg * sg + a * a + b * b) = len" by (simp add: sg2 len_def algebra_simps)
  have l3: "sqrt (a * a + b * b + sg * sg) = len" by (simp add: sg2 len_def algebra_simps)
  have u0: "a / len * (a / len) + sg / len * (sg / len) + b / len * (b / len) = 1"
    using unit_direction[of a sg b] lnz unfolding l0 by simp
  have u1: "sg / len * (sg / len) + a / len * (a / len) + b / len * (b / len) = 1"
    using u0 by simp
  have u3: "a / len * (a / len) + b / len * (b / len) + sg / len * (sg / len) = 1"
    using u0 by simp
  consider "ml = 0" | "ml = 1" | "ml \<noteq> 0 \<and> ml \<noteq> 1" by blast
  then show ?thesis
  proof cases
    case 1
    have "fst (samplePOrbital n ml rnd k)
             = \<lparr>pos = (a / sqrt (a * a + sg * sg + b * b) * rs_r s,
                       sg / sqrt (a * a + sg * sg + b * b) * rs_r s,
                       b / sqrt (a * a + sg * sg + b * b) * rs_r s),
                density = radialDensity s * 0.9\<rparr>"
      using sr pa 1
      by (simp add: samplePOrbital_def Let_def sg_def a_def b_def)
    then have p: "fst (samplePOrbital n ml rnd k)
             = \<lparr>pos = (a / len * rs_r s, sg / len * rs_r s, b / len * rs_r s),
                density = radialDensity s * 0.9\<rparr>"
      unfolding l0 .
    have "(a / len, sg / len, b / len) \<in> peakDirections 1 ml"
      using 1 u0 ax by (simp add: peakDirections_def p_angularVal_def)
    then show ?thesis using p sr by (force simp: multiplyScalar_def)
  next
    case 2
    have "fst (samplePOrbital n ml rnd k)
             = \<lparr>pos = (sg / sqrt (sg * sg + a * a + b * b) * rs_r s,
                       a / sqrt (sg * sg + a * a + b * b) * rs_r s,
                       b / sqrt (sg * sg + a * a + b * b) * rs_r s),
                density = radialDensity s * 0.9\<rparr>"
      using sr pa 2
      by (simp add: samplePOrbital_def Let_def sg_def a_def b_def)
    then have p: "fst (samplePOrbital n ml rnd k)
             = \<lparr>pos = (sg / len * rs_r s, a / len * rs_r s, b / len * rs_r s),
                density = radialDensity s * 0.9\<rparr>"
      unfolding l1 .
    have "(sg / len, a / len, b / len) \<in> peakDirections 1 ml"
      using 2 u1 ax by (simp add: peakDirections_def p_angularVal_def)
    then show ?thesis using p sr by (force simp: multiplyScalar_def)
  next
    case 3
    have "fst (samplePOrbital n ml rnd k)
             = \<lparr>pos = (a / sqrt (a * a + b * b + sg * sg) * rs_r s,
                       b / sqrt (a * a + b * b + sg * sg) * rs_r s,
                       sg / sqrt (a * a + b * b + sg * sg) * rs_r s),
                density = radialDensity s * 0.9\<rparr>"
      using sr pa 3
      by (simp add: samplePOrbital_def Let_def sg_def a_def b_def)
    then have p: "fst (samplePOrbital n ml rnd k)
             = \<lparr>pos = (a / len * rs_r s, b / len * rs_r s, sg / len * rs_r s),
                density = radialDensity s * 0.9\<rparr>"
      unfolding l3 .
    have "(a / len, b / len, sg / len) \<in> peakDirections 1 ml"
      using 3 u3 ax by (simp add: peakDirections_def p_angularVal_def)
    then show ?thesis using p sr by (force simp: multiplyScalar_def)
  qed
qed

lemma diag_direction:
  assumes "sg = 1 \<or> sg = - 1"
  shows "\<exists>phi. (phi = pi / 4 \<or> phi = pi + pi / 4)
           \<and> (sg * 0.707, 0, sg * 0.707)
             = multiplyScalar (sphereDirection phi 0) (0.707 * sqrt 2)"
proof -
  define phi where "phi = (if sg = 1 then pi / 4 else pi + pi / 4)"
  have c: "cos phi = sg * (sqrt 2 / 2) \<and> sin phi = sg * (sqrt 2 / 2)"
  proof (cases "sg = 1")
    case True
    then show ?thesis by (simp add: phi_def cos_45 sin_45)
  next
    case False
    then have m: "sg = - 1" using assms by simp
    have "cos (pi + pi / 4) = - cos (pi / 4)" "sin (pi + pi / 4) = - sin (pi / 4)"
      by (rule cos_periodic_pi2, rule sin_periodic_pi2)
    then have "cos (pi + pi / 4) = - (sqrt 2 / 2)" "sin (pi + pi / 4) = - (sqrt 2 / 2)"
      by (simp_all only: cos_45 sin_45)
    then show ?thesis unfolding phi_def m by simp
  qed
  have c1: "cos phi = sg * (sqrt 2 / 2)" and c2: "sin phi = sg * (sqrt 2 / 2)"
    using c by blast+
  have "sg * (sqrt 2 / 2) * (0.707 * sqrt 2) = sg * 0.707 * (sqrt 2 * sqrt 2 / 2)" by simp
  also have "\<dots> = sg * 0.707" by simp
  finally have "(sg * 0.707, 0, sg * 0.707)
                = multiplyScalar (sphereDirection phi 0) (0.707 * sqrt 2)"
    unfolding multiplyScalar_def sphereDirection_def Let_def c1 c2 by simp
  moreover have "phi = pi / 4 \<or> phi = pi + pi / 4" by (simp add: phi_def)
  ultimately show ?thesis by blast
qed

lemma peak_d0:
  assumes "sg = 1 \<or> sg = - 1"
  shows "(0, sg, 0) \<in> peakDirections 2 0"
proof -
  have "(0, sg, 0) = multiplyScalar (sphereDirection 0 sg) 1"
    using assms by (auto simp: multiplyScalar_def sphereDirection_def Let_def)
  moreover have "- 1 \<le> sg \<and> sg \<le> 1" using assms by auto
  moreover have "\<forall>phi' cosT'. - 1 \<le> cosT' \<and> cosT' \<le> 1
                   \<longrightarrow> d_angularVal 0 phi' cosT' \<le> d_angularVal 0 0 sg"
    unfolding d_angularVal_0_pole[OF assms] using d_angularVal_0_le by blast
  ultimately show ?thesis unfolding peakDirections_def by force
qed

lemma peak_d2:
  assumes "sg = 1 \<or> sg = - 1"
  shows "(sg * 0.707, 0, sg * 0.707) \<in> peakDirections 2 2"
proof -
  obtain phi where phi: "phi = pi / 4 \<or> phi = pi + pi / 4"
      "(sg * 0.707, 0, sg * 0.707) = multiplyScalar (sphereDirection phi 0) (0.707 * sqrt 2)"
    using diag_direction[OF assms] by blast
  have v: "d_angularVal 2 phi 0 = 1"
  proof (rule disjE[OF phi(1)])
    assume "phi = pi / 4"
    then show ?thesis by (simp only: d_angularVal_2_diag(1))
  next
    assume "phi = pi + pi / 4"
    then show ?thesis by (simp only: d_angularVal_2_diag(2))
  qed
  have "\<forall>phi' cosT'. - 1 \<le> cosT' \<and> cosT' \<le> 1
                   \<longrightarrow> d_angularVal 2 phi' cosT' \<le> d_angularVal 2 phi 0"
    unfolding v using d_angularVal_2_le by blast
  then show ?thesis unfolding peakDirections_def using sqrt2_bounds phi(2) by force
qed

lemma peak_f0:
  assumes "sg = 1 \<or> sg = - 1"
  shows "(0, sg, 0) \<in> peakDirections 3 0"
proof -
  have "(0, sg, 0) = multiplyScalar (sphereDirection 0 sg) 1"
    using assms by (auto simp: multiplyScalar_def sphereDirection_def Let_def)
  moreover have "- 1 \<le> sg \<and> sg \<le> 1" using assms by auto
  moreover have "\<forall>phi' cosT'. - 1 \<le> cosT' \<and> cosT' \<le> 1
                   \<longrightarrow> f_angularVal 0 phi' cosT' \<le> f_angularVal 0 0 sg"
    unfolding f_angularVal_0_pole[OF assms] using f_angularVal_0_le by blast
  ultimately show ?thesis unfolding peakDirections_def by force
qed

lemma d_fallback:
  assumes ex: "fst (d_attempts 500 ml rnd (snd (sampleRadius n 2 rnd k))) = None"
    and ml: "ml = 0 \<or> ml = 2"
  shows "\<exists>dir \<in> peakDirections 2 ml.
            pos (fst (sampleDOrbital n ml rnd k))
            = multiplyScalar dir (rs_r (fst (sampleRadius n 2 rnd k)))"
proof -
  obtain s k1 where sr: "sampleRadius n 2 rnd k = (s, k1)"
    by (cases "sampleRadius n 2 rnd k")
  obtain k2 where pa: "d_attempts 500 ml rnd k1 = (None, k2)"
    using ex sr by (cases "d_attempts 500 ml rnd k1") auto
  define sg :: real where "sg = (if rnd k2 < 0.5 then 1 else - 1)"
  have sg: "sg = 1 \<or> sg = - 1" by (simp add: sg_def)
  from ml show ?thesis
  proof
    assume m: "ml = 0"
    have "pos (fst (sampleDOrbital n ml rnd k)) = multiplyScalar (0, sg, 0) (rs_r s)"
      using sr pa m by (simp add: sampleDOrbital_def Let_def multiplyScalar_def sg_def)
    then show ?thesis using peak_d0[OF sg] m sr by auto
  next
    assume m: "ml = 2"
    have "pos (fst (sampleDOrbital n ml rnd k))
          = multiplyScalar (sg * 0.707, 0, sg * 0.707) (rs_r s)"
      using sr pa m by (simp add: sampleDOrbital_def Let_def multiplyScalar_def sg_def)
    then show ?thesis using peak_d2[OF sg] m sr by auto
  qed
qed

lemma f_fallback:
  assumes ex: "fst (f_attempts 500 0 rnd (snd (sampleRadius n 3 rnd k))) = None"
  shows "\<exists>dir \<in> peakDirections 3 0.
            pos (fst (sampleFOrbital n 0 rnd k))
            = multiplyScalar dir (rs_r (fst (sampleRadius n 3 rnd k)))"
proof -
  obtain s k1 where sr: "sampleRadius n 3 rnd k = (s, k1)"
    by (cases "sampleRadius n 3 rnd k")
  obtain k2 where pa: "f_attempts 500 0 rnd k1 = (None, k2)"
    using ex sr by (cases "f_attempts 500 0 rnd k1") auto
  define sg :: real where "sg = (if rnd k2 < 0.5 then 1 else - 1)"
  have sg: "sg = 1 \<or> sg = - 1" by (simp add: sg_def)
  have "pos (fst (sampleFOrbital n 0 rnd k)) = multiplyScalar (0, sg, 0) (rs_r s)"
    using sr pa by (simp add: sampleFOrbital_def Let_def multiplyScalar_def sg_def)
  then show ?thesis using peak_f0[OF sg] sr by auto
qed

lemma fallback_peak:
  assumes "\<forall>i. 0 \<le> rnd i \<and> rnd i < 1" and "exhausted n l ml rnd k"
    and "l = 1 \<or> l = 2 \<and> (ml = 0 \<or> ml = 2) \<or> l = 3 \<and> ml = 0"
  shows "\<exists>dir \<in> peakDirections l ml.
            pos (fst (sampleOne n l ml rnd k))
            = multiplyScalar dir (rs_r (fst (sampleRadius n l rnd k)))"
proof -
  consider "l = 1" | "l = 2" "ml = 0 \<or> ml = 2" | "l = 3" "ml = 0" using assms(3) by auto
  then show ?thesis
  proof cases
    case 1
    then show ?thesis
      using assms p_fallback[of rnd ml n k] by (simp add: exhausted_def sampleOne_def)
  next
    case 2
    then show ?thesis
      using assms d_fallback[of ml rnd n k] by (simp add: exhausted_def sampleOne_def)
  next
    case 3
    then show ?thesis
      using assms f_fallback[of rnd n k] by (simp add: exhausted_def sampleOne_def)
  qed
qed

lemma exhausted_rnd_a: "exhausted 2 1 0 rnd_a 0"
proof -
  obtain d where s: "sampleRadius 2 1 rnd_a 0 = (\<lparr>rs_r = 5.625, radialDensity = d\<rparr>, 2)"
    using sampleRadius_accept_first[of rnd_a 0] by (auto simp: rnd_a_def)
  have p: "p_attempts 500 0 rnd_a 2 = (None, 2 + 3 * 500)"
    by (rule p_attempts_half) (simp add: rnd_a_def)
  show ?thesis using s p by (simp add: exhausted_def)
qed

lemma exhausted_rnd_b: "exhausted 2 1 0 rnd_b 0"
proof -
  obtain d where s: "sampleRadius 2 1 rnd_b 0 = (\<lparr>rs_r = 5.625, radialDensity = d\<rparr>, 2)"
    using sampleRadius_accept_first[of rnd_b 0] by (auto simp: rnd_b_def)
  have p: "p_attempts 500 0 rnd_b 2 = (None, 2 + 3 * 500)"
    by (rule p_attempts_half) (simp add: rnd_b_def)
  show ?thesis using s p by (simp add: exhausted_def)
qed

lemma sampleOrbitalPositions_one:
  "fst (sampleOrbitalPositions n l ml 1 rnd k) = [fst (sampleOne n l ml rnd k)]"
proof -
  obtain s k' where sk: "sampleOne n l ml rnd k = (s, k')" by (cases "sampleOne n l ml rnd k")
  show ?thesis
    unfolding sampleOrbitalPositions_def
    by (subst sample_loop.simps, simp add: sk, subst sample_loop.simps, simp)
qed

text \<open>
  Claim C4, as amended. For \<open>l \<in> {0, 1, 2, 3}\<close>, \<open>-l \<le> m\<^sub>l \<le> l\<close>, \<open>n > l\<close>,
  \<open>count \<ge> 0\<close> and every sequence of draws from \<open>[0, 1)\<close>, sampleOrbitalPositions
  returns exactly \<open>count\<close> samples, each the result of one call of the sampler of the
  orbital type: a call that runs out of angular attempts does not discard its sample.
  For the p orbitals, the d orbitals with \<open>m\<^sub>l = 0\<close> or \<open>m\<^sub>l = 2\<close> and the f orbital
  with \<open>m\<^sub>l = 0\<close>, such a call places the sample at the sampled radius in a
  peak-density direction of the orbital. The direction is not fixed: it is one of two
  opposite directions, chosen by a random draw, and for p it also has a small random
  spread about the lobe axis. The claim as amended says nothing about the direction of
  the fallback for the other d and f orbitals.
\<close>

theorem sampleOrbitalPositions_count:
  assumes "l \<in> {0, 1, 2, 3}" and "- l \<le> ml" and "ml \<le> l" and "l < n" and "0 \<le> count"
    and "\<forall>i. 0 \<le> rnd i \<and> rnd i < 1"
  shows "length (fst (sampleOrbitalPositions n l ml count rnd k)) = nat count
       \<and> (\<forall>s \<in> set (fst (sampleOrbitalPositions n l ml count rnd k)).
             \<exists>k'. s = fst (sampleOne n l ml rnd k'))
       \<and> (\<forall>k'. exhausted n l ml rnd k'
                \<and> (l = 1 \<or> l = 2 \<and> (ml = 0 \<or> ml = 2) \<or> l = 3 \<and> ml = 0) \<longrightarrow>
             (\<exists>dir \<in> peakDirections l ml.
                 pos (fst (sampleOne n l ml rnd k'))
                 = multiplyScalar dir (rs_r (fst (sampleRadius n l rnd k')))))"
proof (intro conjI ballI allI impI)
  show "length (fst (sampleOrbitalPositions n l ml count rnd k)) = nat count"
    by (rule sampleOrbitalPositions_length)
next
  fix s assume "s \<in> set (fst (sampleOrbitalPositions n l ml count rnd k))"
  then show "\<exists>k'. s = fst (sampleOne n l ml rnd k')"
    unfolding sampleOrbitalPositions_def using sample_loop_members by fastforce
next
  fix k'
  assume e: "exhausted n l ml rnd k'
             \<and> (l = 1 \<or> l = 2 \<and> (ml = 0 \<or> ml = 2) \<or> l = 3 \<and> ml = 0)"
  show "\<exists>dir \<in> peakDirections l ml.
                 pos (fst (sampleOne n l ml rnd k'))
                 = multiplyScalar dir (rs_r (fst (sampleRadius n l rnd k')))"
    by (rule fallback_peak[OF assms(6)]) (use e in blast)+
qed

text \<open>The theorem at the 2p orbital with \<open>m\<^sub>l = 0\<close>, one sample and the draws
  \<open>rnd_a\<close>, which run out of angular attempts.\<close>

theorem sampleOrbitalPositions_count_witness:
  "length (fst (sampleOrbitalPositions 2 1 0 1 rnd_a 0)) = 1
   \<and> exhausted 2 1 0 rnd_a 0
   \<and> (\<exists>dir \<in> peakDirections 1 0.
         pos (fst (sampleOne 2 1 0 rnd_a 0))
         = multiplyScalar dir (rs_r (fst (sampleRadius 2 1 rnd_a 0))))"
proof -
  have d: "\<forall>i. 0 \<le> rnd_a i \<and> rnd_a i < 1" by (simp add: rnd_a_def)
  show ?thesis
    using sampleOrbitalPositions_count[of 1 0 2 1 rnd_a 0, OF _ _ _ _ _ d] exhausted_rnd_a
    by simp
qed

text \<open>
  Claim C4 as stated says that the fallback is deterministic, to a fixed direction for
  the orbital type. It is not: for the 2p orbital with \<open>m\<^sub>l = 0\<close>, the draws \<open>rnd_a\<close>
  and \<open>rnd_b\<close> both run out of angular attempts, with the same sampled radius, and the
  one sample requested lies at \<open>(0, -5.625, 0)\<close> for the first and at
  \<open>(0, 5.625, 0)\<close> for the second.
\<close>

theorem fallback_direction_not_fixed:
  "exhausted 2 1 0 rnd_a 0 \<and> exhausted 2 1 0 rnd_b 0
   \<and> rs_r (fst (sampleRadius 2 1 rnd_a 0)) = rs_r (fst (sampleRadius 2 1 rnd_b 0))
   \<and> map pos (fst (sampleOrbitalPositions 2 1 0 1 rnd_a 0)) = [(0, - 5.625, 0)]
   \<and> map pos (fst (sampleOrbitalPositions 2 1 0 1 rnd_b 0)) = [(0, 5.625, 0)]"
proof -
  obtain d where a: "sampleRadius 2 1 rnd_a 0 = (\<lparr>rs_r = 5.625, radialDensity = d\<rparr>, 2)"
    using sampleRadius_accept_first[of rnd_a 0] by (auto simp: rnd_a_def)
  obtain d' where b: "sampleRadius 2 1 rnd_b 0 = (\<lparr>rs_r = 5.625, radialDensity = d'\<rparr>, 2)"
    using sampleRadius_accept_first[of rnd_b 0] by (auto simp: rnd_b_def)
  show ?thesis
    using exhausted_rnd_a exhausted_rnd_b a b samplePOrbital_rnd_a samplePOrbital_rnd_b
    by (simp add: sampleOrbitalPositions_one sampleOne_def)
qed

subsection \<open>The fallback of the other d and f orbitals\<close>

text \<open>The d sampler uses the diagonal of the xz plane for every \<open>m\<^sub>l \<noteq> 0\<close>, and the f
  sampler the y axis for every \<open>m\<^sub>l\<close>. For the d orbitals with \<open>m\<^sub>l \<in> {1, -1, -2}\<close> and
  the f orbitals with \<open>m\<^sub>l \<noteq> 0\<close> the angular value of the sampler is 0 in that
  direction: the sample lies on a node of the orbital, where the comments of the two
  fallback branches speak of a peak-density direction and of a common lobe direction.\<close>

lemma d_angularVal_diag_zero:
  assumes "ml = 1 \<or> ml = - 1 \<or> ml = - 2" and "phi = pi / 4 \<or> phi = pi + pi / 4"
  shows "d_angularVal ml phi 0 = 0"
proof -
  have "cos (2 * (pi + pi / 4)) = cos (pi / 2 + 2 * pi)" by (simp add: algebra_simps)
  also have "\<dots> = 0" by (simp only: cos_periodic cos_pi_half)
  finally have "cos (2 * (pi + pi / 4)) = 0" .
  moreover have "cos (2 * (pi / 4)) = 0" by simp
  ultimately have "cos (2 * phi) = 0" using assms(2) by blast
  then show ?thesis using assms(1) by (auto simp: d_angularVal_def Let_def)
qed

lemma d_fallback_node:
  assumes ex: "fst (d_attempts 500 ml rnd (snd (sampleRadius n 2 rnd k))) = None"
    and ml: "ml = 1 \<or> ml = - 1 \<or> ml = - 2"
  shows "\<exists>phi. pos (fst (sampleDOrbital n ml rnd k))
              = multiplyScalar (multiplyScalar (sphereDirection phi 0) (0.707 * sqrt 2))
                  (rs_r (fst (sampleRadius n 2 rnd k)))
             \<and> d_angularVal ml phi 0 = 0"
proof -
  obtain s k1 where sr: "sampleRadius n 2 rnd k = (s, k1)"
    by (cases "sampleRadius n 2 rnd k")
  obtain k2 where pa: "d_attempts 500 ml rnd k1 = (None, k2)"
    using ex sr by (cases "d_attempts 500 ml rnd k1") auto
  define sg :: real where "sg = (if rnd k2 < 0.5 then 1 else - 1)"
  have sg: "sg = 1 \<or> sg = - 1" by (simp add: sg_def)
  have m0: "ml \<noteq> 0" using ml by auto
  have p: "pos (fst (sampleDOrbital n ml rnd k))
          = multiplyScalar (sg * 0.707, 0, sg * 0.707) (rs_r s)"
    using sr pa m0 by (simp add: sampleDOrbital_def Let_def multiplyScalar_def sg_def)
  obtain phi where phi: "phi = pi / 4 \<or> phi = pi + pi / 4"
      "(sg * 0.707, 0, sg * 0.707) = multiplyScalar (sphereDirection phi 0) (0.707 * sqrt 2)"
    using diag_direction[OF sg] by blast
  have "d_angularVal ml phi 0 = 0" by (rule d_angularVal_diag_zero[OF ml phi(1)])
  then show ?thesis using p phi(2) sr by auto
qed

lemma f_angularVal_pole_zero:
  assumes "ml \<noteq> 0" and "- 3 \<le> ml" and "ml \<le> 3" and "c = 1 \<or> c = - 1"
  shows "f_angularVal ml phi c = 0"
proof -
  have "ml = 1 \<or> ml = - 1 \<or> ml = 2 \<or> ml = - 2 \<or> ml = 3 \<or> ml = - 3"
    using assms(1-3) by linarith
  then show ?thesis using assms(4) by (auto simp: f_angularVal_def Let_def)
qed

lemma f_fallback_node:
  assumes ex: "fst (f_attempts 500 ml rnd (snd (sampleRadius n 3 rnd k))) = None"
    and ml: "ml \<noteq> 0" "- 3 \<le> ml" "ml \<le> 3"
  shows "\<exists>cosT. pos (fst (sampleFOrbital n ml rnd k))
              = multiplyScalar (sphereDirection 0 cosT) (rs_r (fst (sampleRadius n 3 rnd k)))
             \<and> f_angularVal ml 0 cosT = 0"
proof -
  obtain s k1 where sr: "sampleRadius n 3 rnd k = (s, k1)"
    by (cases "sampleRadius n 3 rnd k")
  obtain k2 where pa: "f_attempts 500 ml rnd k1 = (None, k2)"
    using ex sr by (cases "f_attempts 500 ml rnd k1") auto
  define sg :: real where "sg = (if rnd k2 < 0.5 then 1 else - 1)"
  have sg: "sg = 1 \<or> sg = - 1" by (simp add: sg_def)
  have "(0, sg, 0) = sphereDirection 0 sg"
    using sg by (auto simp: sphereDirection_def Let_def)
  moreover have "pos (fst (sampleFOrbital n ml rnd k)) = multiplyScalar (0, sg, 0) (rs_r s)"
    using sr pa by (simp add: sampleFOrbital_def Let_def multiplyScalar_def sg_def)
  moreover have "f_angularVal ml 0 sg = 0" by (rule f_angularVal_pole_zero[OF ml sg])
  ultimately show ?thesis using sr by auto
qed

end
